theory Spec2Isabelle
  imports Main "HOL-Library.Sublist"
begin

section \<open>Python values and library functions used by \<open>clitoolkit/media.py\<close>\<close>

text \<open>
  Strings are \<open>string\<close> (lists of 8-bit characters), so the model covers ASCII text.
  A \<open>datetime\<close> is an abstract integer timestamp: the code only stores, copies and
  prints timestamps.  Exceptions are values of \<open>error\<close>.
\<close>

type_synonym datetime = int

datatype error =
  ValueError | IndexError | KeyError | OSError
  | NoResultFound | MultipleResultsFound | IntegrityError | OperationalError

text \<open>\<open>str.isspace\<close> on ASCII: TAB, LF, VT, FF, CR, the separators 0x1C..0x1F, and SPACE.\<close>

definition isspace :: "char \<Rightarrow> bool" where
  "isspace c = ((of_char c :: nat) \<in> {9, 10, 11, 12, 13, 28, 29, 30, 31, 32})"

text \<open>Cutting a string at every character that satisfies \<open>P\<close>; empty pieces are kept.\<close>

fun split_by :: "(char \<Rightarrow> bool) \<Rightarrow> string \<Rightarrow> string list" where
  "split_by P [] = [[]]"
| "split_by P (c # cs) =
     (if P c then [] # split_by P cs
      else (case split_by P cs of [] \<Rightarrow> [[c]] | w # ws \<Rightarrow> (c # w) # ws))"

text \<open>\<open>s.split('\n')\<close>.\<close>

definition split_lines :: "string \<Rightarrow> string list" where
  "split_lines s = split_by (\<lambda>c. c = CHR 0x0A) s"

text \<open>\<open>s.split()\<close>: cut at runs of whitespace, no empty words.\<close>

definition split_words :: "string \<Rightarrow> string list" where
  "split_words s = filter (\<lambda>w. w \<noteq> []) (split_by isspace s)"

text \<open>\<open>s.strip()\<close>.\<close>

definition strip :: "string \<Rightarrow> string" where
  "strip s = rev (dropWhile isspace (rev (dropWhile isspace s)))"

text \<open>\<open>' '.join(ws)\<close>.\<close>

fun join_space :: "string list \<Rightarrow> string" where
  "join_space [] = []"
| "join_space [w] = w"
| "join_space (w # v # ws) = w @ '' '' @ join_space (v # ws)"

text \<open>
  \<open>s.replace(old, new)\<close>: every non-overlapping occurrence of \<open>old\<close>, from the left.
  With an empty \<open>old\<close>, Python puts \<open>new\<close> before every character and at the end.
\<close>

function replace_ne :: "string \<Rightarrow> string \<Rightarrow> string \<Rightarrow> string" where
  "replace_ne old new [] = []"
| "replace_ne old new (c # cs) =
     (if old \<noteq> [] \<and> prefix old (c # cs)
      then new @ replace_ne old new (drop (length old) (c # cs))
      else c # replace_ne old new cs)"
  by pat_completeness auto
termination
  by (relation "measure (\<lambda>(old, new, s). length s)") auto

definition replace :: "string \<Rightarrow> string \<Rightarrow> string \<Rightarrow> string" where
  "replace s old new =
     (if old = [] then new @ concat (map (\<lambda>c. c # new) s) else replace_ne old new s)"

text \<open>\<open>os.path.join(a, b)\<close> of \<open>posixpath\<close>, for two arguments.\<close>

definition path_join :: "string \<Rightarrow> string \<Rightarrow> string" where
  "path_join a b =
     (if prefix ''/'' b then b
      else if a = [] \<or> suffix ''/'' a then a @ b
      else a @ ''/'' @ b)"





section \<open>Module constants\<close>


definition MINIMUM_VIDEO_SIZE :: nat where
  "MINIMUM_VIDEO_SIZE = 10 * 1000 * 1000"

text \<open>
  \<open>VIDEO_ROOT_PATH = os.path.join(os.environ.get('VIDEO_ROOT_PATH', ''), '')\<close>; the
  argument is the value of the environment variable, empty when it is not set.
\<close>

definition VIDEO_ROOT_PATH :: "string \<Rightarrow> string" where
  "VIDEO_ROOT_PATH env = path_join env ''''"

definition APPS :: "string list" where
  "APPS = [''vlc.Vlc'', ''feh.feh'', ''google-chrome'', ''Chromium-browser.Chromium-browser'']"

text \<open>\<open>check_video_root_path()\<close>: \<open>None\<close> when the check passes.\<close>

definition check_video_root_path :: "string \<Rightarrow> error option" where
  "check_video_root_path root = (if root = [] then Some ValueError else None)"

section \<open>The window snapshot: \<open>list_vlc_open_files\<close> and \<open>list_windows\<close>\<close>

text \<open>
  \<open>list_vlc_open_files(full_path)\<close>.  \<open>root\<close> is \<open>VIDEO_ROOT_PATH\<close> and \<open>files\<close> is
  what the pipeline \<open>lsof -F n -c vlc | grep '^n<root>'\<close> printed.
\<close>

definition list_vlc_open_files :: "bool \<Rightarrow> string \<Rightarrow> string \<Rightarrow> error + string list" where
  "list_vlc_open_files full_path root files =
     (case check_video_root_path root of
        Some e \<Rightarrow> Inl e
      | None \<Rightarrow>
          Inr (map (\<lambda>file. if \<not> full_path then replace (drop 1 file) root [] else drop 1 file)
                 (filter (\<lambda>file. file \<noteq> []) (split_lines (strip files)))))"

text \<open>
  The dictionary \<open>windows\<close> is an association list in insertion order (the order in
  which \<open>dict.items()\<close> yields it), with distinct keys.
\<close>

type_synonym windows = "(string \<times> string list) list"

text \<open>\<open>windows[app].extend(titles)\<close>; \<open>windows[app].append(t)\<close> is \<open>extend_app\<close> with \<open>[t]\<close>.\<close>

definition extend_app :: "windows \<Rightarrow> string \<Rightarrow> string list \<Rightarrow> windows" where
  "extend_app w app titles = map (\<lambda>(k, v). if k = app then (k, v @ titles) else (k, v)) w"

text \<open>\<open>if app not in windows.keys(): windows[app] = []\<close>\<close>

definition ensure_app :: "windows \<Rightarrow> string \<Rightarrow> windows" where
  "ensure_app w app = (if app \<notin> set (map fst w) then w @ [(app, [])] else w)"

text \<open>
  The loop over \<open>lines.split('\n')\<close>.  \<open>k\<close> is the index of the line; \<open>lsof k\<close> is what
  the \<open>lsof\<close> pipeline prints when \<open>list_vlc_open_files\<close> is called at line \<open>k\<close> (the
  code calls it once for every line of a VLC window).  \<open>words[2]\<close> raises
  \<open>IndexError\<close> on a line of one or two words.
\<close>

fun list_windows_loop ::
  "string \<Rightarrow> (nat \<Rightarrow> string) \<Rightarrow> nat \<Rightarrow> string list \<Rightarrow> windows \<Rightarrow> error + windows" where
  "list_windows_loop root lsof k [] windows = Inr windows"
| "list_windows_loop root lsof k (line # rest) windows =
     (let words = split_words line in
      if words = [] then list_windows_loop root lsof (Suc k) rest windows
      else if length words < 3 then Inl IndexError
      else
        let app = words ! 2;
            windows1 = ensure_app windows app;
            title = join_space (drop 4 words)
        in
          if prefix ''vlc'' app then
            (case list_vlc_open_files False root (lsof k) of
               Inl e \<Rightarrow> Inl e
             | Inr open_files \<Rightarrow>
                 if open_files \<noteq> []
                 then list_windows_loop root lsof (Suc k) rest (extend_app windows1 app open_files)
                 else list_windows_loop root lsof (Suc k) rest (extend_app windows1 app ['''']))
          else list_windows_loop root lsof (Suc k) rest (extend_app windows1 app [title]))"

text \<open>
  \<open>list_windows()\<close>.  \<open>lines\<close> is what \<open>wmctrl -l -x | grep -e <APPS>\<close> printed.
\<close>

definition list_windows :: "string \<Rightarrow> string \<Rightarrow> (nat \<Rightarrow> string) \<Rightarrow> error + windows" where
  "list_windows root lines lsof =
     (case list_windows_loop root lsof 0 (split_lines lines) (map (\<lambda>app. (app, [])) APPS) of
        Inl e \<Rightarrow> Inl e
      | Inr windows \<Rightarrow>
          Inr (map (\<lambda>(key, val). (key, if val \<noteq> [] then val else [''''])) windows))"

section \<open>The store: the tables \<open>video\<close> and \<open>window_log\<close> behind \<open>session\<close>\<close>

text \<open>
  The mapped classes.  \<open>Video.size\<close> is the field \<open>video_size\<close> and
  \<open>WindowLog.video_id\<close> is the field \<open>log_video_id\<close> (the names \<open>size\<close> and
  \<open>video_id\<close> are taken).  A primary key is \<open>None\<close> until the row is committed.
\<close>

record Video =
  video_id :: nat
  path :: string
  video_size :: nat

record WindowLog =
  window_id :: "nat option"
  start_dt :: datetime
  end_dt :: datetime
  app_name :: string
  title :: string
  log_video_id :: "nat option"

text \<open>
  The global \<open>session\<close> with its database: the rows of both tables, the number of
  commits attempted so far, and the commits that the environment makes fail (a locked
  or full database): commit number \<open>n\<close> raises \<open>OperationalError\<close> when \<open>faults n\<close>.
\<close>

record Session =
  videos :: "Video list"
  window_logs :: "WindowLog list"
  commits :: nat
  faults :: "nat \<Rightarrow> bool"

text \<open>The integer primary key SQLite gives a new row: one more than the largest, from 1.\<close>

definition next_id :: "nat list \<Rightarrow> nat" where
  "next_id ids = Suc (fold max ids 0)"

text \<open>
  \<open>session.add(Video(path=p, size=sz)); session.commit()\<close>, with the constraint
  \<open>unique=True\<close> of the column \<open>path\<close>.
\<close>

definition add_video :: "Session \<Rightarrow> string \<Rightarrow> nat \<Rightarrow> error + Session" where
  "add_video s p sz =
     (if faults s (commits s) then Inl OperationalError
      else if p \<in> set (map path (videos s)) then Inl IntegrityError
      else Inr (s\<lparr>videos := videos s @
                     [\<lparr>video_id = next_id (map video_id (videos s)), path = p, video_size = sz\<rparr>],
                  commits := Suc (commits s)\<rparr>))"

text \<open>
  \<open>session.add(window_log); session.commit()\<close>, with the foreign key of
  \<open>WindowLog.video_id\<close> (enforced: \<open>PRAGMA foreign_keys=ON\<close>).
\<close>

definition add_window_log :: "Session \<Rightarrow> WindowLog \<Rightarrow> error + Session" where
  "add_window_log s window_log =
     (if faults s (commits s) then Inl OperationalError
      else if (case log_video_id window_log of
                 None \<Rightarrow> False
               | Some i \<Rightarrow> i \<notin> set (map video_id (videos s))) then Inl IntegrityError
      else Inr (s\<lparr>window_logs := window_logs s @
                     [window_log\<lparr>window_id :=
                        Some (next_id (map (\<lambda>w. case window_id w of None \<Rightarrow> 0 | Some i \<Rightarrow> i) (window_logs s)))\<rparr>],
                  commits := Suc (commits s)\<rparr>))"

text \<open>\<open>Query.one()\<close> on the rows a query selects.\<close>

fun one :: "'a list \<Rightarrow> error + 'a" where
  "one [] = Inl NoResultFound"
| "one [x] = Inr x"
| "one (x # y # zs) = Inl MultipleResultsFound"

section \<open>\<open>scan_video_files\<close>\<close>


text \<open>
  The body of the \<open>for\<close> statement.  \<open>stat\<close> gives \<open>os.stat(p).st_size\<close>, or \<open>None\<close>
  where \<open>os.stat\<close> raises (a broken link).
\<close>

fun scan_loop :: "string \<Rightarrow> (string \<Rightarrow> nat option) \<Rightarrow> string list \<Rightarrow> Session \<Rightarrow> error + Session" where
  "scan_loop root stat [] s = Inr s"
| "scan_loop root stat (partial_path # rest) s =
     (let full_path = path_join root partial_path in
      case stat full_path of
        None \<Rightarrow> Inl OSError
      | Some sz \<Rightarrow>
          if sz > MINIMUM_VIDEO_SIZE then
            (case add_video s partial_path sz of
               Inl e \<Rightarrow> Inl e
             | Inr s' \<Rightarrow> scan_loop root stat rest s')
          else scan_loop root stat rest s)"


section \<open>\<open>window_monitor\<close>\<close>

text \<open>
  What the monitor prints, one value for each \<open>print\<close>: the start line, the line
  \<open>Open window in <app>: <title>\<close> with its time, and the \<open>repr\<close> of a
  \<open>WindowLog\<close> (a text of its start, end, application, title and video id).
\<close>

datatype printed =
  Starting datetime
  | Open_window datetime string string
  | Log_line WindowLog

text \<open>
  The state of the loop: the dictionary \<open>last\<close> (field \<open>last_dict\<close>; for each
  application a \<open>defaultdict(tuple)\<close> from slot index to \<open>(time, title)\<close>, where a
  missing index and the empty tuple are both \<open>None\<close>: the code overwrites an empty
  tuple in the same iteration that creates it), the session, and the text printed so far.
\<close>

record monitor_state =
  last_dict :: "string \<rightharpoonup> (nat \<rightharpoonup> datetime \<times> string)"
  session :: Session
  stdout :: "printed list"

datatype outcome = Returned | Raised error

text \<open>Lines 202 to 206: the \<open>try\<close> around the catalog query; only \<open>NoResultFound\<close> is caught.\<close>

definition lookup_video_id :: "Session \<Rightarrow> string \<Rightarrow> error + nat option" where
  "lookup_video_id s old_title =
     (case one (filter (\<lambda>v. path v = old_title) (videos s)) of
        Inr video \<Rightarrow> Inr (Some (video_id video))
      | Inl NoResultFound \<Rightarrow> Inr None
      | Inl e \<Rightarrow> Inl e)"

text \<open>Lines 202 to 213: the segment of \<open>old_title\<close> is closed, printed and saved.\<close>

definition close_segment ::
  "bool \<Rightarrow> string \<Rightarrow> datetime \<Rightarrow> datetime \<Rightarrow> string \<Rightarrow> monitor_state \<Rightarrow> outcome \<times> monitor_state" where
  "close_segment save_logs app start_time end_time old_title st =
     (case lookup_video_id (session st) old_title of
        Inl e \<Rightarrow> (Raised e, st)
      | Inr vid \<Rightarrow>
          let window_log = \<lparr>window_id = None, start_dt = start_time, end_dt = end_time,
                             app_name = app, title = old_title, log_video_id = vid\<rparr>;
              st1 = st\<lparr>stdout := stdout st @ [Log_line window_log]\<rparr>
          in
            if save_logs then
              (case add_window_log (session st1) window_log of
                 Inl e \<Rightarrow> (Raised e, st1)
               | Inr s' \<Rightarrow> (Returned, st1\<lparr>session := s'\<rparr>))
            else (Returned, st1))"

text \<open>
  Lines 185 to 213: the body of the loop over \<open>enumerate(new_titles)\<close>.  \<open>end_time\<close>
  is what \<open>datetime.now()\<close> returns at line 191.
\<close>

definition process_slot ::
  "bool \<Rightarrow> datetime \<Rightarrow> string \<Rightarrow> nat \<Rightarrow> string \<Rightarrow> datetime \<Rightarrow> monitor_state
     \<Rightarrow> outcome \<times> monitor_state" where
  "process_slot save_logs monitor_start_time app index new_title end_time st =
     (case last_dict st app of
        None \<Rightarrow> (Raised KeyError, st)
      | Some slots \<Rightarrow>
          let last_info = slots index in
          if (case last_info of None \<Rightarrow> False | Some info \<Rightarrow> snd info = new_title)
          then (Returned, st)
          else
            let start_time = (case last_info of Some info \<Rightarrow> fst info | None \<Rightarrow> monitor_start_time);
                st1 = st\<lparr>last_dict := (last_dict st)(app \<mapsto> slots(index \<mapsto> (end_time, new_title)))\<rparr>;
                st2 = (if new_title \<noteq> []
                       then st1\<lparr>stdout := stdout st1 @ [Open_window end_time app new_title]\<rparr>
                       else st1);
                old_title = (case last_info of Some info \<Rightarrow> snd info | None \<Rightarrow> [])
            in
              if old_title = [] then (Returned, st2)
              else close_segment save_logs app start_time end_time old_title st2)"

text \<open>
  The loop over \<open>enumerate(new_titles)\<close>, from \<open>index\<close> on.  \<open>now index\<close> is the
  clock reading taken if the slot \<open>index\<close> reaches line 191 in this poll.
\<close>

fun titles_loop ::
  "bool \<Rightarrow> datetime \<Rightarrow> string \<Rightarrow> (nat \<Rightarrow> datetime) \<Rightarrow> nat \<Rightarrow> string list \<Rightarrow> monitor_state
     \<Rightarrow> outcome \<times> monitor_state" where
  "titles_loop save_logs monitor_start_time app now index [] st = (Returned, st)"
| "titles_loop save_logs monitor_start_time app now index (new_title # rest) st =
     (case process_slot save_logs monitor_start_time app index new_title (now index) st of
        (Returned, st') \<Rightarrow> titles_loop save_logs monitor_start_time app now (Suc index) rest st'
      | (Raised e, st') \<Rightarrow> (Raised e, st'))"

text \<open>Lines 178 to 213: the body of the loop over the applications of one snapshot.\<close>

definition process_app ::
  "bool \<Rightarrow> datetime \<Rightarrow> (nat \<Rightarrow> datetime) \<Rightarrow> string \<Rightarrow> string list \<Rightarrow> monitor_state
     \<Rightarrow> outcome \<times> monitor_state" where
  "process_app save_logs monitor_start_time now app new_titles st =
     (let st1 = (if app \<notin> dom (last_dict st)
                 then st\<lparr>last_dict := (last_dict st)(app \<mapsto> Map.empty)\<rparr> else st)
      in titles_loop save_logs monitor_start_time app now 0 new_titles st1)"

fun apps_loop ::
  "bool \<Rightarrow> datetime \<Rightarrow> (string \<Rightarrow> nat \<Rightarrow> datetime) \<Rightarrow> windows \<Rightarrow> monitor_state
     \<Rightarrow> outcome \<times> monitor_state" where
  "apps_loop save_logs monitor_start_time clock [] st = (Returned, st)"
| "apps_loop save_logs monitor_start_time clock ((app, new_titles) # rest) st =
     (case process_app save_logs monitor_start_time (clock app) app new_titles st of
        (Returned, st') \<Rightarrow> apps_loop save_logs monitor_start_time clock rest st'
      | (Raised e, st') \<Rightarrow> (Raised e, st'))"

text \<open>
  One turn of \<open>while True\<close>.  A poll is what the environment gives in that turn: the
  texts the two pipelines print (\<open>wmctrl_out\<close>; \<open>lsof_out k\<close> for the call at line
  \<open>k\<close> of it) and the clock (\<open>clock app index\<close> is \<open>datetime.now()\<close> at line 191 for
  that slot).
\<close>

record poll =
  wmctrl_out :: string
  lsof_out :: "nat \<Rightarrow> string"
  clock :: "string \<Rightarrow> nat \<Rightarrow> datetime"

definition poll_step ::
  "bool \<Rightarrow> string \<Rightarrow> datetime \<Rightarrow> poll \<Rightarrow> monitor_state \<Rightarrow> outcome \<times> monitor_state" where
  "poll_step save_logs root monitor_start_time p st =
     (case list_windows root (wmctrl_out p) (lsof_out p) of
        Inl e \<Rightarrow> (Raised e, st)
      | Inr windows \<Rightarrow> apps_loop save_logs monitor_start_time (clock p) windows st)"

text \<open>
  \<open>while True\<close>: the list holds the polls made before \<open>KeyboardInterrupt\<close> arrives (in
  \<open>sleep\<close>), after which the function returns.  Any other exception leaves the loop
  and the function: \<open>except KeyboardInterrupt\<close> is the only handler.
\<close>

fun monitor_loop ::
  "bool \<Rightarrow> string \<Rightarrow> datetime \<Rightarrow> poll list \<Rightarrow> monitor_state \<Rightarrow> outcome \<times> monitor_state" where
  "monitor_loop save_logs root monitor_start_time [] st = (Returned, st)"
| "monitor_loop save_logs root monitor_start_time (p # ps) st =
     (case poll_step save_logs root monitor_start_time p st of
        (Returned, st') \<Rightarrow> monitor_loop save_logs root monitor_start_time ps st'
      | (Raised e, st') \<Rightarrow> (Raised e, st'))"

text \<open>
  \<open>window_monitor(save_logs)\<close>.  \<open>monitor_start_time\<close> is the first reading of the
  clock, \<open>s\<close> the session when the function is called.
\<close>

definition window_monitor ::
  "bool \<Rightarrow> string \<Rightarrow> datetime \<Rightarrow> poll list \<Rightarrow> Session \<Rightarrow> outcome \<times> monitor_state" where
  "window_monitor save_logs root monitor_start_time polls s =
     monitor_loop save_logs root monitor_start_time polls
       \<lparr>last_dict = Map.empty, session = s, stdout = [Starting monitor_start_time]\<rparr>"

text \<open>The entry \<open>last[app][index]\<close>, \<open>None\<close> when the application or the slot is not there.\<close>

definition slot_history :: "monitor_state \<Rightarrow> string \<Rightarrow> nat \<Rightarrow> (datetime \<times> string) option" where
  "slot_history st app index =
     (case last_dict st app of None \<Rightarrow> None | Some slots \<Rightarrow> slots index)"

section \<open>Example inputs\<close>

text \<open>
  A catalog with one video and a database that never fails; a database whose first
  commit fails; a poll in which the window list is \<open>out\<close>, VLC has no open file and
  every clock reading is \<open>t\<close>; a monitor state in which one slot has a history.
\<close>

definition example_session :: Session where
  "example_session =
     \<lparr>videos = [\<lparr>video_id = 7, path = ''movies/x.mkv'', video_size = 20000000\<rparr>],
      window_logs = [], commits = 0, faults = (\<lambda>n. False)\<rparr>"

definition failing_session :: Session where
  "failing_session = example_session\<lparr>faults := (\<lambda>n. n = 0)\<rparr>"

definition example_poll :: "string \<Rightarrow> datetime \<Rightarrow> poll" where
  "example_poll out t = \<lparr>wmctrl_out = out, lsof_out = (\<lambda>k. []), clock = (\<lambda>app index. t)\<rparr>"

definition example_state :: "Session \<Rightarrow> string \<Rightarrow> nat \<Rightarrow> datetime \<Rightarrow> string \<Rightarrow> monitor_state" where
  "example_state s app index t old_title =
     \<lparr>last_dict = [app \<mapsto> [index \<mapsto> (t, old_title)]], session = s, stdout = [Starting 0]\<rparr>"

section \<open>Notions used in the proofs\<close>

definition same_view :: "monitor_state \<Rightarrow> monitor_state \<Rightarrow> bool" where
  "same_view stP stD \<longleftrightarrow>
     last_dict stP = last_dict stD \<and> stdout stP = stdout stD \<and>
     videos (session stP) = videos (session stD)"

definition stops_early :: "outcome \<times> monitor_state \<Rightarrow> outcome \<times> monitor_state \<Rightarrow> bool" where
  "stops_early rP rD \<longleftrightarrow>
     (fst rP = fst rD \<and> same_view (snd rP) (snd rD)) \<or>
     (fst rP = Raised OperationalError \<and> prefix (stdout (snd rP)) (stdout (snd rD)))"


definition repeats :: "windows \<Rightarrow> string \<Rightarrow> nat \<Rightarrow> string \<Rightarrow> bool" where
  "repeats ws app index T \<longleftrightarrow>
     list_all (\<lambda>(a, ts). a = app \<longrightarrow> index < length ts \<longrightarrow> ts ! index = T) ws"

definition poll_repeats :: "string \<Rightarrow> poll \<Rightarrow> string \<Rightarrow> nat \<Rightarrow> string \<Rightarrow> bool" where
  "poll_repeats root p app index T =
     (case list_windows root (wmctrl_out p) (lsof_out p) of
        Inl e \<Rightarrow> True
      | Inr ws \<Rightarrow> repeats ws app index T)"


text \<open>The titles a dictionary of windows holds for an application, none when it is absent.\<close>

definition slots_of :: "windows \<Rightarrow> string \<Rightarrow> string list" where
  "slots_of w a = (case map_of w a of None \<Rightarrow> [] | Some ts \<Rightarrow> ts)"

text \<open>The application a line of the window list belongs to: its third word.\<close>

definition line_app :: "string \<Rightarrow> string option" where
  "line_app line =
     (let words = split_words line in if length words \<ge> 3 then Some (words ! 2) else None)"

text \<open>
  What one window line of a VLC application adds to the slots of the application, as the
  specification words it: the open files the player reports at that line, one slot for
  each file in the order of the files, and one empty title when it reports none.
\<close>

definition vlc_window_slots :: "string \<Rightarrow> string \<Rightarrow> string list" where
  "vlc_window_slots root out =
     (case list_vlc_open_files False root out of
        Inl e \<Rightarrow> []
      | Inr open_files \<Rightarrow> if open_files = [] then [''''] else open_files)"

text \<open>What a line adds to the slots of the application \<open>a\<close>: for other applications, its title.\<close>

definition line_slots :: "string \<Rightarrow> string \<Rightarrow> string \<Rightarrow> string \<Rightarrow> string list" where
  "line_slots root out a line =
     (if line_app line = Some a
      then (if prefix ''vlc'' a then vlc_window_slots root out
            else [join_space (drop 4 (split_words line))])
      else [])"

text \<open>The slots the lines add for \<open>a\<close>, in the order of the lines, from line \<open>k\<close> on.\<close>

fun snapshot_slots :: "string \<Rightarrow> (nat \<Rightarrow> string) \<Rightarrow> string \<Rightarrow> nat \<Rightarrow> string list \<Rightarrow> string list" where
  "snapshot_slots root lsof a k [] = []"
| "snapshot_slots root lsof a k (line # rest) =
     line_slots root (lsof k) a line @ snapshot_slots root lsof a (Suc k) rest"



section \<open>Facts about the library functions and the store\<close>

lemma split_by_not_Nil: "split_by P s \<noteq> []"
  by (induction s) (auto split: list.splits)

lemma one_filter_distinct:
  "distinct (map path vs) \<Longrightarrow>
   one (filter (\<lambda>v. path v = p) vs) =
     (case find (\<lambda>v. path v = p) vs of None \<Rightarrow> Inl NoResultFound | Some v \<Rightarrow> Inr v)"
proof (induction vs)
  case Nil
  then show ?case by simp
next
  case (Cons a vs)
  show ?case
  proof (cases "path a = p")
    case True
    with Cons.prems have "p \<notin> path ` set vs"
      by simp
    then have "filter (\<lambda>v. path v = p) vs = []"
      unfolding filter_empty_conv by blast
    with True show ?thesis by simp
  next
    case False
    with Cons show ?thesis by simp
  qed
qed

lemma find_path_Some: "find (\<lambda>v. path v = p) vs = Some v \<Longrightarrow> v \<in> set vs \<and> path v = p"
  by (induction vs) (auto split: if_splits)

lemma find_path_None: "find (\<lambda>v. path v = p) vs = None \<longleftrightarrow> (\<forall>v\<in>set vs. path v \<noteq> p)"
  by (induction vs) auto

lemma find_path_distinct:
  "distinct (map path vs) \<Longrightarrow> v \<in> set vs \<Longrightarrow> find (\<lambda>u. path u = path v) vs = Some v"
  by (induction vs) force+

lemma lookup_video_id_distinct:
  "distinct (map path (videos s)) \<Longrightarrow>
   lookup_video_id s p = Inr (map_option video_id (find (\<lambda>v. path v = p) (videos s)))"
  by (simp add: lookup_video_id_def one_filter_distinct split: option.splits)

lemma lookup_video_id_known:
  assumes "lookup_video_id s p = Inr (Some i)"
  shows "i \<in> set (map video_id (videos s))"
proof -
  from assms obtain v
    where v: "one (filter (\<lambda>v. path v = p) (videos s)) = Inr v" and i: "i = video_id v"
    by (auto simp: lookup_video_id_def split: sum.splits error.splits)
  have "v \<in> set (filter (\<lambda>v. path v = p) (videos s))"
    using v by (cases "filter (\<lambda>v. path v = p) (videos s)" rule: one.cases) auto
  with i show ?thesis by auto
qed

text \<open>A row whose link came from the catalog query passes the foreign key.\<close>

lemma add_window_log_looked_up:
  "lookup_video_id s p = Inr vid \<Longrightarrow> log_video_id wl = vid \<Longrightarrow>
   add_window_log s wl =
     (if faults s (commits s) then Inl OperationalError
      else Inr (s\<lparr>window_logs := window_logs s @
                     [wl\<lparr>window_id :=
                        Some (next_id (map (\<lambda>w. case window_id w of None \<Rightarrow> 0 | Some i \<Rightarrow> i)
                                (window_logs s)))\<rparr>],
                  commits := Suc (commits s)\<rparr>))"
  by (cases vid) (auto simp: add_window_log_def dest: lookup_video_id_known)

section \<open>The body of the slot loop\<close>

text \<open>The three ways through \<open>process_slot\<close>, by what the slot's history holds.\<close>

lemma process_slot_same:
  "last_dict st app = Some slots \<Longrightarrow> slots index = Some (t, new_title) \<Longrightarrow>
   process_slot save_logs monitor_start_time app index new_title end_time st = (Returned, st)"
  by (simp add: process_slot_def)

lemma process_slot_quiet:
  assumes "last_dict st app = Some slots"
    and "slots index = None \<or> (\<exists>t. slots index = Some (t, []) \<and> new_title \<noteq> [])"
  shows "process_slot save_logs monitor_start_time app index new_title end_time st =
           (Returned,
            st\<lparr>last_dict := (last_dict st)(app \<mapsto> slots(index \<mapsto> (end_time, new_title))),
               stdout := stdout st @
                 (if new_title \<noteq> [] then [Open_window end_time app new_title] else [])\<rparr>)"
  using assms by (auto simp: process_slot_def)

lemma process_slot_change:
  assumes "last_dict st app = Some slots" and "slots index = Some (t1, old_title)"
    and "old_title \<noteq> []" and "new_title \<noteq> old_title"
  shows "process_slot save_logs monitor_start_time app index new_title end_time st =
           close_segment save_logs app t1 end_time old_title
             (st\<lparr>last_dict := (last_dict st)(app \<mapsto> slots(index \<mapsto> (end_time, new_title))),
                 stdout := stdout st @
                   (if new_title \<noteq> [] then [Open_window end_time app new_title] else [])\<rparr>)"
  using assms by (auto simp: process_slot_def)

lemma close_segment_distinct:
  assumes "distinct (map path (videos (session st)))"
  shows "close_segment save_logs app start_time end_time old_title st =
     (let window_log = \<lparr>window_id = None, start_dt = start_time, end_dt = end_time,
                        app_name = app, title = old_title,
                        log_video_id = map_option video_id
                          (find (\<lambda>v. path v = old_title) (videos (session st)))\<rparr>;
          st1 = st\<lparr>stdout := stdout st @ [Log_line window_log]\<rparr>
      in if save_logs then
           (if faults (session st) (commits (session st)) then (Raised OperationalError, st1)
            else (Returned,
                  st1\<lparr>session := (session st)\<lparr>window_logs := window_logs (session st) @
                         [window_log\<lparr>window_id :=
                            Some (next_id (map (\<lambda>w. case window_id w of None \<Rightarrow> 0 | Some i \<Rightarrow> i)
                                    (window_logs (session st))))\<rparr>],
                       commits := Suc (commits (session st))\<rparr>\<rparr>))
         else (Returned, st1))"
proof -
  let ?vid = "map_option video_id (find (\<lambda>v. path v = old_title) (videos (session st)))"
  have l: "lookup_video_id (session st) old_title = Inr ?vid"
    using assms by (rule lookup_video_id_distinct)
  show ?thesis
    by (simp add: close_segment_def l add_window_log_looked_up [OF l] Let_def)
qed

section \<open>What a step leaves alone, and the dry run beside the persisting run\<close>

lemma lookup_video_id_videos:
  "videos s = videos s' \<Longrightarrow> lookup_video_id s p = lookup_video_id s' p"
  by (simp add: lookup_video_id_def)

lemma close_segment_frame:
  "last_dict (snd (close_segment sl app t1 t2 old st)) = last_dict st"
  "videos (session (snd (close_segment sl app t1 t2 old st))) = videos (session st)"
  "prefix (stdout st) (stdout (snd (close_segment sl app t1 t2 old st)))"
  "session (snd (close_segment False app t1 t2 old st)) = session st"
  by (auto simp: close_segment_def add_window_log_def Let_def split: sum.splits option.splits)

lemma process_slot_frame:
  "videos (session (snd (process_slot sl ms app i new t2 st))) = videos (session st)"
  "prefix (stdout st) (stdout (snd (process_slot sl ms app i new t2 st)))"
  "session (snd (process_slot False ms app i new t2 st)) = session st"
  by (auto simp: process_slot_def close_segment_frame Let_def split: option.splits
           intro: prefix_order.trans [OF _ close_segment_frame(3)])

lemma process_slot_other:
  assumes "a \<noteq> app \<or> i \<noteq> index"
  shows "slot_history (snd (process_slot sl ms a i new t2 st)) app index = slot_history st app index"
  using assms
  by (auto simp: process_slot_def slot_history_def close_segment_frame Let_def split: option.splits)

lemma close_segment_sim:
  assumes "same_view stP stD"
  shows "same_view (snd (close_segment True app t1 t2 old stP)) (snd (close_segment False app t1 t2 old stD))
       \<and> (fst (close_segment True app t1 t2 old stP) = fst (close_segment False app t1 t2 old stD)
          \<or> fst (close_segment True app t1 t2 old stP) = Raised OperationalError
            \<and> fst (close_segment False app t1 t2 old stD) = Returned)"
proof (cases "lookup_video_id (session stP) old")
  case (Inl e)
  moreover have "lookup_video_id (session stD) old = Inl e"
    using Inl assms lookup_video_id_videos [of "session stP" "session stD" old]
    by (simp add: same_view_def)
  ultimately show ?thesis
    using assms by (simp add: close_segment_def)
next
  case (Inr vid)
  moreover have "lookup_video_id (session stD) old = Inr vid"
    using Inr assms lookup_video_id_videos [of "session stP" "session stD" old]
    by (simp add: same_view_def)
  ultimately show ?thesis
    using assms
    by (simp add: close_segment_def Let_def same_view_def add_window_log_looked_up [OF Inr])
qed

lemma process_slot_sim:
  assumes "same_view stP stD"
  shows "same_view (snd (process_slot True ms app i new t2 stP)) (snd (process_slot False ms app i new t2 stD))
       \<and> (fst (process_slot True ms app i new t2 stP) = fst (process_slot False ms app i new t2 stD)
          \<or> fst (process_slot True ms app i new t2 stP) = Raised OperationalError
            \<and> fst (process_slot False ms app i new t2 stD) = Returned)"
proof -
  have l: "last_dict stP = last_dict stD"
    using assms by (simp add: same_view_def)
  have sv: "same_view (stP\<lparr>last_dict := d, stdout := stdout stP @ xs\<rparr>) (stD\<lparr>last_dict := d, stdout := stdout stD @ xs\<rparr>)" for d xs
    using assms by (simp add: same_view_def)
  have sv': "same_view (stP\<lparr>last_dict := d\<rparr>) (stD\<lparr>last_dict := d\<rparr>)" for d
    using assms by (simp add: same_view_def)
  show ?thesis
    using assms close_segment_sim [OF sv] close_segment_sim [OF sv']
    by (auto simp: process_slot_def l Let_def sv sv' split: option.splits)
qed

lemma titles_loop_frame:
  "videos (session (snd (titles_loop sl ms app now i ts st))) = videos (session st)"
  "prefix (stdout st) (stdout (snd (titles_loop sl ms app now i ts st)))"
  "session (snd (titles_loop False ms app now i ts st)) = session st"
proof (induction ts arbitrary: i st)
  case Nil
  {
    case 1 show ?case by simp
  next
    case 2 show ?case by simp
  next
    case 3 show ?case by simp
  }
next
  case (Cons t ts)
  {
    case 1
    show ?case
      using process_slot_frame(1) [of sl ms app i t "now i" st] Cons.IH(1)
      by (auto split: prod.splits outcome.splits)
  next
    case 2
    show ?case
      using process_slot_frame(2) [of st sl ms app i t "now i"] Cons.IH(2)
      by (auto split: prod.splits outcome.splits intro: prefix_order.trans)
  next
    case 3
    show ?case
      using process_slot_frame(3) [of ms app i t "now i" st] Cons.IH(3)
      by (auto split: prod.splits outcome.splits)
  }
qed


lemma process_app_frame:
  "videos (session (snd (process_app sl ms now app ts st))) = videos (session st)"
  "prefix (stdout st) (stdout (snd (process_app sl ms now app ts st)))"
  "session (snd (process_app False ms now app ts st)) = session st"
  using titles_loop_frame(2) [of st sl ms app now 0 ts]
    titles_loop_frame(2) [of "st\<lparr>last_dict := (last_dict st)(app \<mapsto> Map.empty)\<rparr>" sl ms app now 0 ts]
  by (auto simp: process_app_def titles_loop_frame Let_def)

lemma apps_loop_frame:
  "videos (session (snd (apps_loop sl ms clk ws st))) = videos (session st)"
  "prefix (stdout st) (stdout (snd (apps_loop sl ms clk ws st)))"
  "session (snd (apps_loop False ms clk ws st)) = session st"
proof (induction ws arbitrary: st)
  case Nil
  {
    case 1 show ?case by simp
  next
    case 2 show ?case by simp
  next
    case 3 show ?case by simp
  }
next
  case (Cons x ws)
  obtain app ts where x: "x = (app, ts)" by (cases x)
  {
    case 1
    show ?case
      using process_app_frame(1) [of sl ms "clk app" app ts st] Cons.IH(1)
      by (auto simp: x split: prod.splits outcome.splits)
  next
    case 2
    show ?case
      using process_app_frame(2) [of st sl ms "clk app" app ts] Cons.IH(2)
      by (auto simp: x split: prod.splits outcome.splits intro: prefix_order.trans)
  next
    case 3
    show ?case
      using process_app_frame(3) [of ms "clk app" app ts st] Cons.IH(3)
      by (auto simp: x split: prod.splits outcome.splits)
  }
qed

lemma poll_step_frame:
  "videos (session (snd (poll_step sl root ms p st))) = videos (session st)"
  "prefix (stdout st) (stdout (snd (poll_step sl root ms p st)))"
  "session (snd (poll_step False root ms p st)) = session st"
  by (auto simp: poll_step_def apps_loop_frame split: sum.splits)

lemma monitor_loop_frame:
  "videos (session (snd (monitor_loop sl root ms ps st))) = videos (session st)"
  "prefix (stdout st) (stdout (snd (monitor_loop sl root ms ps st)))"
  "session (snd (monitor_loop False root ms ps st)) = session st"
proof (induction ps arbitrary: st)
  case Nil
  {
    case 1 show ?case by simp
  next
    case 2 show ?case by simp
  next
    case 3 show ?case by simp
  }
next
  case (Cons p ps)
  {
    case 1
    show ?case
      using poll_step_frame(1) [of sl root ms p st] Cons.IH(1)
      by (auto split: prod.splits outcome.splits)
  next
    case 2
    show ?case
      using poll_step_frame(2) [of st sl root ms p] Cons.IH(2)
      by (auto split: prod.splits outcome.splits intro: prefix_order.trans)
  next
    case 3
    show ?case
      using poll_step_frame(3) [of root ms p st] Cons.IH(3)
      by (auto split: prod.splits outcome.splits)
  }
qed

lemma same_view_refl: "same_view st st"
  by (simp add: same_view_def)

lemma titles_loop_sim:
  "same_view stP stD \<Longrightarrow>
   stops_early (titles_loop True ms app now i ts stP) (titles_loop False ms app now i ts stD)"
proof (induction ts arbitrary: i stP stD)
  case Nil
  then show ?case by (simp add: stops_early_def)
next
  case (Cons t ts)
  obtain oP stP' where P: "process_slot True ms app i t (now i) stP = (oP, stP')"
    by (cases "process_slot True ms app i t (now i) stP")
  obtain oD stD' where D: "process_slot False ms app i t (now i) stD = (oD, stD')"
    by (cases "process_slot False ms app i t (now i) stD")
  from process_slot_sim [OF Cons.prems, of ms app i t "now i"] P D
  have sv: "same_view stP' stD'"
    and out: "oP = oD \<or> oP = Raised OperationalError \<and> oD = Returned"
    by simp_all
  from sv have eq: "stdout stP' = stdout stD'"
    by (simp add: same_view_def)
  show ?case
  proof (cases oP)
    case Returned
    with out have "oD = Returned" by auto
    with Returned P D Cons.IH [OF sv] show ?thesis by simp
  next
    case (Raised e)
    show ?thesis
    proof (cases oD)
      case Returned
      with out Raised have "e = OperationalError" by auto
      with Raised Returned P D eq titles_loop_frame(2) [of stD' False ms app now "Suc i" ts]
      show ?thesis by (simp add: stops_early_def)
    next
      case (Raised e')
      with out \<open>oP = Raised e\<close> have "e' = e" by auto
      with Raised \<open>oP = Raised e\<close> P D sv show ?thesis by (simp add: stops_early_def)
    qed
  qed
qed

lemma process_app_sim:
  assumes "same_view stP stD"
  shows "stops_early (process_app True ms now app ts stP) (process_app False ms now app ts stD)"
proof -
  have d: "last_dict stP = last_dict stD"
    using assms by (simp add: same_view_def)
  have "same_view (stP\<lparr>last_dict := m\<rparr>) (stD\<lparr>last_dict := m\<rparr>)" for m
    using assms by (simp add: same_view_def)
  then show ?thesis
    using assms by (simp add: process_app_def d titles_loop_sim)
qed

section \<open>The loops\<close>

lemma stops_early_cont:
  assumes "stops_early rP rD"
    and "\<And>stP stD. same_view stP stD \<Longrightarrow> stops_early (kP stP) (kD stD)"
    and "\<And>st. prefix (stdout st) (stdout (snd (kD st)))"
  shows "stops_early
           (case rP of (Returned, st') \<Rightarrow> kP st' | (Raised e, st') \<Rightarrow> (Raised e, st'))
           (case rD of (Returned, st') \<Rightarrow> kD st' | (Raised e, st') \<Rightarrow> (Raised e, st'))"
proof -
  obtain oP stP where P: "rP = (oP, stP)" by (cases rP)
  obtain oD stD where D: "rD = (oD, stD)" by (cases rD)
  from assms(1) P D consider
    (same) "oP = oD" "same_view stP stD"
    | (early) "oP = Raised OperationalError" "prefix (stdout stP) (stdout stD)"
    by (auto simp: stops_early_def)
  then show ?thesis
  proof cases
    case same
    then show ?thesis
      using assms(2) [OF same(2)] P D
      by (cases oD) (simp_all add: stops_early_def)
  next
    case early
    then show ?thesis
      using assms(3) [of stD] P D
      by (cases oD) (auto simp: stops_early_def intro: prefix_order.trans)
  qed
qed

lemma apps_loop_sim:
  "same_view stP stD \<Longrightarrow>
   stops_early (apps_loop True ms clk ws stP) (apps_loop False ms clk ws stD)"
proof (induction ws arbitrary: stP stD)
  case Nil
  then show ?case by (simp add: stops_early_def)
next
  case (Cons x ws)
  obtain app ts where x: "x = (app, ts)" by (cases x)
  show ?case
    unfolding x apps_loop.simps
    by (rule stops_early_cont [OF process_app_sim [OF Cons.prems]])
       (simp_all add: Cons.IH apps_loop_frame)
qed

lemma poll_step_sim:
  "same_view stP stD \<Longrightarrow>
   stops_early (poll_step True root ms p stP) (poll_step False root ms p stD)"
proof (cases "list_windows root (wmctrl_out p) (lsof_out p)")
  case (Inl e)
  assume "same_view stP stD"
  with Inl show ?thesis by (simp add: poll_step_def stops_early_def)
next
  case (Inr ws)
  assume "same_view stP stD"
  with Inr show ?thesis by (simp add: poll_step_def apps_loop_sim)
qed

lemma monitor_loop_sim:
  "same_view stP stD \<Longrightarrow>
   stops_early (monitor_loop True root ms ps stP) (monitor_loop False root ms ps stD)"
proof (induction ps arbitrary: stP stD)
  case Nil
  then show ?case by (simp add: stops_early_def)
next
  case (Cons p ps)
  show ?case
    unfolding monitor_loop.simps
    by (rule stops_early_cont [OF poll_step_sim [OF Cons.prems]])
       (simp_all add: Cons.IH monitor_loop_frame)
qed

text \<open>Once a poll raises, the polls after it are not made.\<close>

lemma monitor_loop_raised_append:
  "fst (monitor_loop sl root ms ps st) = Raised e \<Longrightarrow>
   monitor_loop sl root ms (ps @ qs) st = monitor_loop sl root ms ps st"
proof (induction ps arbitrary: st)
  case Nil
  then show ?case by simp
next
  case (Cons p ps)
  then show ?case
    by (cases "poll_step sl root ms p st") (auto split: outcome.splits)
qed

lemma monitor_loop_returned_append:
  "fst (monitor_loop sl root ms ps st) = Returned \<Longrightarrow>
   monitor_loop sl root ms (ps @ qs) st =
     monitor_loop sl root ms qs (snd (monitor_loop sl root ms ps st))"
proof (induction ps arbitrary: st)
  case Nil
  then show ?case by simp
next
  case (Cons p ps)
  then show ?case
    by (cases "poll_step sl root ms p st") (auto split: outcome.splits)
qed

text \<open>The history of a slot through the loops.\<close>

lemma slot_history_Some:
  "slot_history st app index = Some info \<longleftrightarrow>
     (\<exists>slots. last_dict st app = Some slots \<and> slots index = Some info)"
  by (auto simp: slot_history_def split: option.splits)

lemma titles_loop_keeps:
  assumes "slot_history st app index = Some (t, T)"
    and "a = app \<longrightarrow> i0 \<le> index \<longrightarrow> index - i0 < length ts \<longrightarrow> ts ! (index - i0) = T"
  shows "slot_history (snd (titles_loop sl ms a now i0 ts st)) app index = Some (t, T)"
  using assms
proof (induction ts arbitrary: i0 st)
  case Nil
  then show ?case by simp
next
  case (Cons x ts)
  show ?case
  proof (cases "a = app \<and> i0 = index")
    case True
    with Cons.prems(2) have "x = T" by simp
    with True Cons.prems(1) have
      "process_slot sl ms a i0 x (now i0) st = (Returned, st)"
      by (auto simp: slot_history_Some intro: process_slot_same)
    moreover have "slot_history (snd (titles_loop sl ms a now (Suc i0) ts st)) app index = Some (t, T)"
      using True by (intro Cons.IH Cons.prems(1)) simp
    ultimately show ?thesis by simp
  next
    case False
    obtain r st' where r: "process_slot sl ms a i0 x (now i0) st = (r, st')"
      by (cases "process_slot sl ms a i0 x (now i0) st")
    have h: "slot_history st' app index = Some (t, T)"
      using process_slot_other [of a app i0 index sl ms x "now i0" st] False r Cons.prems(1)
      by auto
    have "slot_history (snd (titles_loop sl ms a now (Suc i0) ts st')) app index = Some (t, T)"
    proof (intro Cons.IH h impI)
      assume "a = app" and le: "Suc i0 \<le> index" and len: "index - Suc i0 < length ts"
      with Cons.prems(2) have "(x # ts) ! (index - i0) = T" by auto
      moreover from le have "index - i0 = Suc (index - Suc i0)" by arith
      ultimately show "ts ! (index - Suc i0) = T" by simp
    qed
    with r h show ?thesis by (cases r) simp_all
  qed
qed

lemma process_app_keeps:
  assumes "slot_history st app index = Some (t, T)"
    and "a = app \<longrightarrow> index < length ts \<longrightarrow> ts ! index = T"
  shows "slot_history (snd (process_app sl ms now a ts st)) app index = Some (t, T)"
proof -
  have "slot_history (st\<lparr>last_dict := (last_dict st)(a \<mapsto> Map.empty)\<rparr>) app index = Some (t, T)"
    if "a \<notin> dom (last_dict st)"
    using that assms(1) by (auto simp: slot_history_def split: option.splits)
  then show ?thesis
    using assms by (auto simp: process_app_def Let_def intro!: titles_loop_keeps)
qed

lemma apps_loop_keeps:
  assumes "slot_history st app index = Some (t, T)" and "repeats ws app index T"
  shows "slot_history (snd (apps_loop sl ms clk ws st)) app index = Some (t, T)"
  using assms
proof (induction ws arbitrary: st)
  case Nil
  then show ?case by simp
next
  case (Cons x ws)
  obtain a ts where x: "x = (a, ts)" by (cases x)
  obtain r st' where r: "process_app sl ms (clk a) a ts st = (r, st')"
    by (cases "process_app sl ms (clk a) a ts st")
  have h: "slot_history st' app index = Some (t, T)"
    using process_app_keeps [OF Cons.prems(1), of a ts sl ms "clk a"] Cons.prems(2) r
    by (simp add: repeats_def x)
  have "slot_history (snd (apps_loop sl ms clk ws st')) app index = Some (t, T)"
    using Cons.prems(2) by (intro Cons.IH h) (simp add: repeats_def)
  with r h show ?case by (cases r) (simp_all add: x)
qed

lemma poll_step_keeps:
  assumes "slot_history st app index = Some (t, T)" and "poll_repeats root p app index T"
  shows "slot_history (snd (poll_step sl root ms p st)) app index = Some (t, T)"
  using assms
  by (auto simp: poll_step_def poll_repeats_def apps_loop_keeps split: sum.splits)

lemma monitor_loop_keeps:
  assumes "slot_history st app index = Some (t, T)"
    and "list_all (\<lambda>p. poll_repeats root p app index T) ps"
  shows "slot_history (snd (monitor_loop sl root ms ps st)) app index = Some (t, T)"
  using assms
proof (induction ps arbitrary: st)
  case Nil
  then show ?case by simp
next
  case (Cons p ps)
  obtain r st' where r: "poll_step sl root ms p st = (r, st')"
    by (cases "poll_step sl root ms p st")
  have h: "slot_history st' app index = Some (t, T)"
    using poll_step_keeps [OF Cons.prems(1), of root p sl ms] Cons.prems(2) r by simp
  have "slot_history (snd (monitor_loop sl root ms ps st')) app index = Some (t, T)"
    using Cons.prems(2) by (intro Cons.IH h) simp
  with r h show ?case by (cases r) simp_all
qed

section \<open>The example polls, evaluated\<close>

lemma list_windows_feh_A:
  "list_windows ''/v/'' ''0x1 0 feh.feh host A'' (\<lambda>k. []) =
     Inr [(''vlc.Vlc'', ['''']), (''feh.feh'', [''A'']), (''google-chrome'', ['''']),
          (''Chromium-browser.Chromium-browser'', [''''])]"
  by code_simp

lemma list_windows_feh_B:
  "list_windows ''/v/'' ''0x1 0 feh.feh host B'' (\<lambda>k. []) =
     Inr [(''vlc.Vlc'', ['''']), (''feh.feh'', [''B'']), (''google-chrome'', ['''']),
          (''Chromium-browser.Chromium-browser'', [''''])]"
  by code_simp

lemma list_windows_feh_C:
  "list_windows ''/v/'' ''0x1 0 feh.feh host C'' (\<lambda>k. []) =
     Inr [(''vlc.Vlc'', ['''']), (''feh.feh'', [''C'']), (''google-chrome'', ['''']),
          (''Chromium-browser.Chromium-browser'', [''''])]"
  by code_simp

lemma list_windows_none:
  "list_windows ''/v/'' [] (\<lambda>k. []) =
     Inr [(''vlc.Vlc'', ['''']), (''feh.feh'', ['''']), (''google-chrome'', ['''']),
          (''Chromium-browser.Chromium-browser'', [''''])]"
  by code_simp




lemmas run_simps =
  window_monitor_def example_poll_def example_state_def poll_step_def process_app_def
  process_slot_def close_segment_def lookup_video_id_def add_window_log_def
  example_session_def failing_session_def next_id_def Let_def
  list_windows_feh_A list_windows_feh_B list_windows_feh_C

section \<open>What the snapshot holds\<close>

lemma keys_extend: "map fst (extend_app w a xs) = map fst w"
  by (induction w) (auto simp: extend_app_def)

lemma keys_ensure_app: "set (map fst (ensure_app w a)) = insert a (set (map fst w))"
  by (auto simp: ensure_app_def)

lemma distinct_ensure_app: "distinct (map fst w) \<Longrightarrow> distinct (map fst (ensure_app w a))"
  by (auto simp: ensure_app_def)

lemma slots_of_ensure_app: "slots_of (ensure_app w a) b = slots_of w b"
proof (cases "a \<in> set (map fst w)")
  case True
  then show ?thesis by (simp add: ensure_app_def)
next
  case False
  then have "ensure_app w a = w @ [(a, [])]"
    by (simp add: ensure_app_def)
  moreover have "map_of (w @ [(a, [])]) b =
      (case map_of w b of None \<Rightarrow> (if b = a then Some [] else None) | Some ts \<Rightarrow> Some ts)"
    by (simp add: map_add_def split: option.splits)
  ultimately show ?thesis
    by (simp add: slots_of_def split: option.splits)
qed

lemma map_of_extend:
  "map_of (extend_app w a xs) b =
     (if b = a then map_option (\<lambda>ts. ts @ xs) (map_of w a) else map_of w b)"
  by (induction w) (auto simp: extend_app_def)

lemma slots_of_extend:
  "a \<in> set (map fst w) \<Longrightarrow>
   slots_of (extend_app w a xs) b = (if b = a then slots_of w a @ xs else slots_of w b)"
proof -
  assume "a \<in> set (map fst w)"
  then have "map_of w a \<noteq> None"
    by (simp add: map_of_eq_None_iff)
  then obtain ts where "map_of w a = Some ts"
    by auto
  then show ?thesis
    by (simp add: slots_of_def map_of_extend)
qed

lemma slots_of_step:
  "slots_of (extend_app (ensure_app w a) a xs) b = slots_of w b @ (if b = a then xs else [])"
proof -
  have "a \<in> set (map fst (ensure_app w a))"
    by (auto simp: ensure_app_def)
  from slots_of_extend [OF this] show ?thesis
    by (simp add: slots_of_ensure_app)
qed

lemma keys_step:
  "set (map fst (extend_app (ensure_app w a) a xs)) = insert a (set (map fst w))"
  "distinct (map fst w) \<Longrightarrow> distinct (map fst (extend_app (ensure_app w a) a xs))"
  by (simp_all only: keys_extend keys_ensure_app distinct_ensure_app)

lemma list_windows_loop_slots:
  "list_windows_loop root lsof k ls w = Inr w' \<Longrightarrow>
   slots_of w' a = slots_of w a @ snapshot_slots root lsof a k ls"
proof (induction ls arbitrary: k w)
  case Nil
  then show ?case by simp
next
  case (Cons line rest)
  let ?words = "split_words line"
  show ?case
  proof (cases "?words = []")
    case True
    then have "line_slots root (lsof k) a line = []"
      by (simp add: line_slots_def line_app_def)
    with True Cons show ?thesis by simp
  next
    case False
    with Cons.prems have len: "3 \<le> length ?words"
      by (auto simp: Let_def split: if_splits)
    let ?app = "?words ! 2"
    have la: "line_app line = Some ?app"
      using len by (simp add: line_app_def)
    show ?thesis
    proof (cases "prefix ''vlc'' ?app")
      case True
      with Cons.prems False len obtain fs
        where fs: "list_vlc_open_files False root (lsof k) = Inr fs"
          and rest: "list_windows_loop root lsof (Suc k) rest
                       (extend_app (ensure_app w ?app) ?app (if fs \<noteq> [] then fs else [''''])) = Inr w'"
        by (auto simp: Let_def split: sum.splits if_splits)
      have "line_slots root (lsof k) a line =
              (if a = ?app then (if fs \<noteq> [] then fs else ['''']) else [])"
        using True la fs by (auto simp: line_slots_def vlc_window_slots_def)
      with Cons.IH [OF rest] show ?thesis
        by (simp add: slots_of_step)
    next
      case notvlc: False
      with Cons.prems False len have
        rest: "list_windows_loop root lsof (Suc k) rest
                 (extend_app (ensure_app w ?app) ?app [join_space (drop 4 ?words)]) = Inr w'"
        by (auto simp: Let_def split: if_splits)
      have "line_slots root (lsof k) a line =
              (if a = ?app then [join_space (drop 4 ?words)] else [])"
        using notvlc la by (auto simp: line_slots_def)
      with Cons.IH [OF rest] show ?thesis
        by (simp add: slots_of_step)
    qed
  qed
qed

lemma list_windows_loop_keys:
  "list_windows_loop root lsof k ls w = Inr w' \<Longrightarrow> distinct (map fst w) \<Longrightarrow>
   distinct (map fst w') \<and> set (map fst w) \<subseteq> set (map fst w')"
proof (induction ls arbitrary: k w)
  case Nil
  then show ?case by simp
next
  case (Cons line rest)
  let ?words = "split_words line"
  show ?case
  proof (cases "?words = []")
    case True
    with Cons show ?thesis by simp
  next
    case False
    with Cons.prems(1) obtain xs where
      "list_windows_loop root lsof (Suc k) rest
         (extend_app (ensure_app w (?words ! 2)) (?words ! 2) xs) = Inr w'"
      by (auto simp: Let_def split: sum.splits if_splits)
    from Cons.IH [OF this keys_step(2) [OF Cons.prems(2)]]
    have d: "distinct (map fst w')"
      and sub: "set (map fst (extend_app (ensure_app w (?words ! 2)) (?words ! 2) xs))
                  \<subseteq> set (map fst w')"
      by blast+
    have "set (map fst w) \<subseteq> set (map fst (extend_app (ensure_app w (?words ! 2)) (?words ! 2) xs))"
      unfolding keys_step(1) by blast
    with sub d show ?thesis by blast
  qed
qed


lemma snapshot_slots_absent:
  "\<forall>l\<in>set ls. line_app l \<noteq> Some a \<Longrightarrow> snapshot_slots root lsof a k ls = []"
  by (induction ls arbitrary: k) (simp_all add: line_slots_def)

lemma map_of_map_values:
  "map_of (map (\<lambda>(k, v). (k, f v)) w) a = map_option f (map_of w a)"
  by (induction w) auto

lemma map_of_pad:
  "map_of (map (\<lambda>(key, val). (key, if val \<noteq> [] then val else [''''])) w) a =
     map_option (\<lambda>val. if val \<noteq> [] then val else ['''']) (map_of w a)"
  by (rule map_of_map_values)

text \<open>What \<open>list_windows\<close> returns, key by key.\<close>

lemma list_windows_result:
  assumes "list_windows root lines lsof = Inr ws"
  shows "distinct (map fst ws)"
    and "set APPS \<subseteq> set (map fst ws)"
    and "\<forall>(a, ts)\<in>set ws. ts \<noteq> []"
    and "a \<in> set (map fst ws) \<Longrightarrow>
         map_of ws a =
           Some (if snapshot_slots root lsof a 0 (split_lines lines) \<noteq> []
                 then snapshot_slots root lsof a 0 (split_lines lines) else [''''])"
proof -
  let ?w0 = "map (\<lambda>app. (app, [])) APPS"
  from assms obtain w' where
    loop: "list_windows_loop root lsof 0 (split_lines lines) ?w0 = Inr w'"
    and ws: "ws = map (\<lambda>(key, val). (key, if val \<noteq> [] then val else [''''])) w'"
    by (auto simp: list_windows_def split: sum.splits)
  have d0: "distinct (map fst ?w0)"
    by (simp add: APPS_def comp_def)
  have k0: "map fst ?w0 = APPS"
    by (simp add: comp_def)
  have keys: "map fst ws = map fst w'"
    by (simp add: ws comp_def case_prod_beta)
  from list_windows_loop_keys [OF loop d0] k0
  show "distinct (map fst ws)" and "set APPS \<subseteq> set (map fst ws)"
    by (simp_all add: keys)
  show "\<forall>(a, ts)\<in>set ws. ts \<noteq> []"
    by (auto simp: ws split: if_splits)
  have s0: "slots_of ?w0 a = []"
    by (simp add: slots_of_def map_of_map_restrict restrict_map_def)
  show "map_of ws a =
           Some (if snapshot_slots root lsof a 0 (split_lines lines) \<noteq> []
                 then snapshot_slots root lsof a 0 (split_lines lines) else [''''])"
    if "a \<in> set (map fst ws)"
  proof -
    from that keys have "a \<in> fst ` set w'"
      by simp
    then have "map_of w' a \<noteq> None"
      by (simp add: map_of_eq_None_iff)
    then obtain ts where ts: "map_of w' a = Some ts"
      by auto
    then have "slots_of w' a = ts"
      by (simp add: slots_of_def)
    with list_windows_loop_slots [OF loop, of a] s0
    have "ts = snapshot_slots root lsof a 0 (split_lines lines)"
      by simp
    with ts show ?thesis
      by (simp add: ws map_of_pad)
  qed
qed

section \<open>The scan and the catalog\<close>

lemma add_video_Inr:
  assumes "add_video s p sz = Inr s'"
  shows "p \<notin> set (map path (videos s))"
    and "set (map path (videos s')) = insert p (set (map path (videos s)))"
    and "faults s' = faults s"
    and "distinct (map path (videos s)) \<Longrightarrow> distinct (map path (videos s'))"
  using assms by (auto simp: add_video_def split: if_splits)






lemma scan_loop_distinct:
  "scan_loop root stat ps s = Inr s' \<Longrightarrow> distinct (map path (videos s)) \<Longrightarrow>
   distinct (map path (videos s'))"
proof (induction ps arbitrary: s)
  case Nil
  then show ?case by simp
next
  case (Cons q ps)
  then show ?case
    by (fastforce simp: Let_def split: option.splits if_splits sum.splits dest: add_video_Inr(4))
qed

section \<open>When the snapshot returns, and an application without windows\<close>

lemma list_vlc_open_files_returns:
  "root \<noteq> [] \<Longrightarrow> \<exists>fs. list_vlc_open_files full_path root out = Inr fs"
  by (simp add: list_vlc_open_files_def check_video_root_path_def)

lemma list_windows_loop_returns:
  assumes "root \<noteq> []"
    and "\<forall>l\<in>set ls. split_words l = [] \<or> 3 \<le> length (split_words l)"
  shows "\<exists>w'. list_windows_loop root lsof k ls w = Inr w'"
  using assms(2)
proof (induction ls arbitrary: k w)
  case Nil
  then show ?case by simp
next
  case (Cons line rest)
  then have IH: "\<exists>w'. list_windows_loop root lsof (Suc k) rest w1 = Inr w'" for w1
    by simp
  from Cons.prems have len: "split_words line = [] \<or> 3 \<le> length (split_words line)"
    by simp
  obtain fs where fs: "list_vlc_open_files False root (lsof k) = Inr fs"
    using list_vlc_open_files_returns [OF assms(1)] by blast
  show ?case
    using len IH fs by (auto simp: Let_def)
qed

lemma list_windows_returns:
  assumes "root \<noteq> []"
    and "\<forall>l\<in>set (split_lines lines). split_words l = [] \<or> 3 \<le> length (split_words l)"
  shows "\<exists>ws. list_windows root lines lsof = Inr ws"
proof -
  from list_windows_loop_returns [OF assms] obtain w' where
    "list_windows_loop root lsof 0 (split_lines lines) (map (\<lambda>app. (app, [])) APPS) = Inr w'"
    by blast
  then show ?thesis by (simp add: list_windows_def)
qed

text \<open>An application that had no window, then has one: two visits of its slot 0.\<close>

lemma process_app_empty_then_title:
  assumes "slot_history st app 0 = None" and "T \<noteq> []"
  shows "process_app sl ms now1 app [''''] st =
           (Returned, st\<lparr>last_dict := (last_dict st)(app \<mapsto>
               (case last_dict st app of None \<Rightarrow> Map.empty | Some slots \<Rightarrow> slots)(0 \<mapsto> (now1 0, [])))\<rparr>)"
    and "process_app sl ms now2 app [T] (snd (process_app sl ms now1 app [''''] st)) =
           (Returned, st\<lparr>last_dict := (last_dict st)(app \<mapsto>
               (case last_dict st app of None \<Rightarrow> Map.empty | Some slots \<Rightarrow> slots)(0 \<mapsto> (now2 0, T))),
             stdout := stdout st @ [Open_window (now2 0) app T]\<rparr>)"
proof -
  let ?slots = "case last_dict st app of None \<Rightarrow> Map.empty | Some slots \<Rightarrow> slots"
  have none: "?slots 0 = None"
    using assms(1) by (simp add: slot_history_def split: option.splits)
  show 1: "process_app sl ms now1 app [''''] st =
           (Returned, st\<lparr>last_dict := (last_dict st)(app \<mapsto> ?slots(0 \<mapsto> (now1 0, [])))\<rparr>)"
  proof (cases "last_dict st app")
    case None
    then show ?thesis
      by (simp add: process_app_def process_slot_def domIff)
  next
    case (Some slots)
    with none show ?thesis
      by (simp add: process_app_def process_slot_def domIff)
  qed
  show "process_app sl ms now2 app [T] (snd (process_app sl ms now1 app [''''] st)) =
           (Returned, st\<lparr>last_dict := (last_dict st)(app \<mapsto> ?slots(0 \<mapsto> (now2 0, T))),
             stdout := stdout st @ [Open_window (now2 0) app T]\<rparr>)"
  proof -
    let ?st1 = "st\<lparr>last_dict := (last_dict st)(app \<mapsto> ?slots(0 \<mapsto> (now1 0, [])))\<rparr>"
    have "process_app sl ms now2 app [T] ?st1 =
           (Returned, st\<lparr>last_dict := (last_dict st)(app \<mapsto> ?slots(0 \<mapsto> (now2 0, T))),
             stdout := stdout st @ [Open_window (now2 0) app T]\<rparr>)"
      using assms(2) by (simp add: process_app_def process_slot_def domIff)
    then show ?thesis
      by (simp only: 1 snd_conv)
  qed
qed

section \<open>A loop over a list cut in two\<close>

lemma titles_loop_append:
  "titles_loop sl ms app now i (pre @ rest) st =
     (case titles_loop sl ms app now i pre st of
        (Returned, st') \<Rightarrow> titles_loop sl ms app now (i + length pre) rest st'
      | (Raised e, st') \<Rightarrow> (Raised e, st'))"
proof (induction pre arbitrary: i st)
  case Nil
  then show ?case by simp
next
  case (Cons t pre)
  obtain r st1 where r: "process_slot sl ms app i t (now i) st = (r, st1)"
    by (cases "process_slot sl ms app i t (now i) st")
  show ?case
    using r Cons.IH [of "Suc i" st1]
    by (cases r) (simp_all split: prod.splits outcome.splits)
qed

lemma process_app_append:
  "process_app sl ms now app (pre @ rest) st =
     (case process_app sl ms now app pre st of
        (Returned, st') \<Rightarrow> titles_loop sl ms app now (length pre) rest st'
      | (Raised e, st') \<Rightarrow> (Raised e, st'))"
  by (simp add: process_app_def Let_def titles_loop_append split: prod.splits outcome.splits)

lemma apps_loop_append:
  "apps_loop sl ms clk (wpre @ wrest) st =
     (case apps_loop sl ms clk wpre st of
        (Returned, st') \<Rightarrow> apps_loop sl ms clk wrest st'
      | (Raised e, st') \<Rightarrow> (Raised e, st'))"
proof (induction wpre arbitrary: st)
  case Nil
  then show ?case by simp
next
  case (Cons x wpre)
  obtain app ts where x: "x = (app, ts)" by (cases x)
  obtain r st1 where r: "process_app sl ms (clk app) app ts st = (r, st1)"
    by (cases "process_app sl ms (clk app) app ts st")
  show ?case
    using r Cons.IH [of st1] by (cases r) (simp_all add: x)
qed

lemma monitor_loop_append:
  "monitor_loop sl root ms (before @ rest) st =
     (case monitor_loop sl root ms before st of
        (Returned, st') \<Rightarrow> monitor_loop sl root ms rest st'
      | (Raised e, st') \<Rightarrow> (Raised e, st'))"
proof (induction before arbitrary: st)
  case Nil
  then show ?case by simp
next
  case (Cons p before)
  obtain r st1 where r: "poll_step sl root ms p st = (r, st1)"
    by (cases "poll_step sl root ms p st")
  show ?case
    using r Cons.IH [of st1] by (cases r) simp_all
qed

text \<open>
  An exception of the loop body leaves every loop around it: the slot \<open>length pre\<close> of
  the application \<open>app\<close> raises in the poll \<open>p\<close>, after the polls \<open>before\<close>, the
  applications \<open>wpre\<close> and the slots \<open>pre\<close> have been gone through.
\<close>

lemma monitor_loop_raises:
  assumes "monitor_loop sl root ms before st_start = (Returned, st0)"
    and "list_windows root (wmctrl_out p) (lsof_out p) = Inr (wpre @ (app, pre @ B # post) # wpost)"
    and "apps_loop sl ms (clock p) wpre st0 = (Returned, st1)"
    and "process_app sl ms (clock p app) app pre st1 = (Returned, st)"
    and "process_slot sl ms app (length pre) B (clock p app (length pre)) st = (Raised e, st')"
  shows "monitor_loop sl root ms (before @ p # later) st_start = (Raised e, st')"
proof -
  have "process_app sl ms (clock p app) app (pre @ B # post) st1 = (Raised e, st')"
    using assms(4,5) by (simp add: process_app_append)
  then have "apps_loop sl ms (clock p) (wpre @ (app, pre @ B # post) # wpost) st0 = (Raised e, st')"
    using assms(3) by (simp add: apps_loop_append)
  then have "poll_step sl root ms p st0 = (Raised e, st')"
    using assms(2) by (simp add: poll_step_def)
  then show ?thesis
    using assms(1) by (simp add: monitor_loop_append)
qed

section \<open>The open files of VLC\<close>












section \<open>Claims about one transition\<close>

text \<open>
  Claim C1, as the code has it.  When the history of a slot holds a non-empty title
  \<open>A\<close> recorded at \<open>t1\<close> and the slot reports a different title \<open>B\<close>, with the clock
  at \<open>t2\<close>, the record printed for \<open>A\<close> has \<open>start_dt = t1\<close> and \<open>end_dt = t2\<close>, and so
  has the row stored when \<open>save_logs\<close> is set and the commit succeeds.  The start is the
  stored time in every case, also when \<open>A\<close> was the first title seen in the slot:
  \<open>monitor_start_time\<close> does not occur in the record.
\<close>

theorem closed_segment_interval:
  assumes "last_dict st app = Some slots" and "slots index = Some (t1, A)"
    and "A \<noteq> []" and "B \<noteq> A"
    and "distinct (map path (videos (session st)))"
  shows "stdout (snd (process_slot save_logs monitor_start_time app index B t2 st)) =
           stdout st @ (if B \<noteq> [] then [Open_window t2 app B] else []) @
             [Log_line \<lparr>window_id = None, start_dt = t1, end_dt = t2, app_name = app, title = A,
                log_video_id = map_option video_id
                  (find (\<lambda>v. path v = A) (videos (session st)))\<rparr>]
         \<and> (save_logs \<and> \<not> faults (session st) (commits (session st)) \<longrightarrow>
              window_logs (session (snd (process_slot save_logs monitor_start_time app index B t2 st))) =
                window_logs (session st) @
                  [\<lparr>window_id = Some (next_id (map (\<lambda>w. case window_id w of None \<Rightarrow> 0 | Some i \<Rightarrow> i)
                                                 (window_logs (session st)))),
                    start_dt = t1, end_dt = t2, app_name = app, title = A,
                    log_video_id = map_option video_id
                      (find (\<lambda>v. path v = A) (videos (session st)))\<rparr>])"
  using assms
  by (simp add: process_slot_change close_segment_distinct Let_def)

theorem closed_segment_interval_witness:
  "stdout (snd (process_slot True 0 ''feh.feh'' 0 ''B'' 9
                  (example_state example_session ''feh.feh'' 0 5 ''A''))) =
     [Starting 0, Open_window 9 ''feh.feh'' ''B'',
      Log_line \<lparr>window_id = None, start_dt = 5, end_dt = 9, app_name = ''feh.feh'',
                 title = ''A'', log_video_id = None\<rparr>]
   \<and> window_logs (session (snd (process_slot True 0 ''feh.feh'' 0 ''B'' 9
                  (example_state example_session ''feh.feh'' 0 5 ''A'')))) =
     [\<lparr>window_id = Some 1, start_dt = 5, end_dt = 9, app_name = ''feh.feh'',
       title = ''A'', log_video_id = None\<rparr>]"
  using closed_segment_interval
    [of "example_state example_session ''feh.feh'' 0 5 ''A''" "''feh.feh''"
        "[0 \<mapsto> (5, ''A'')]" 0 5 "''A''" "''B''" True 0 9]
  by (simp add: example_state_def example_session_def next_id_def)

text \<open>
  Claim C1 as it is written fails where \<open>A\<close> was the first title ever seen in the
  slot: the monitor starts at time 0, sees \<open>A\<close> at time 5 and \<open>B\<close> at time 9, and the
  record for \<open>A\<close> starts at 5, not at the start time 0 of the monitor.
\<close>

theorem first_segment_starts_at_first_observation:
  "stdout (snd (window_monitor True ''/v/'' 0
                  [example_poll ''0x1 0 feh.feh host A'' 5, example_poll ''0x1 0 feh.feh host B'' 9]
                  example_session)) =
     [Starting 0, Open_window 5 ''feh.feh'' ''A'', Open_window 9 ''feh.feh'' ''B'',
      Log_line \<lparr>window_id = None, start_dt = 5, end_dt = 9, app_name = ''feh.feh'',
                 title = ''A'', log_video_id = None\<rparr>]"
  by (simp add: run_simps)

text \<open>
  Claim C3.  The first title a slot reports (its history has no entry) produces no log
  record, whatever the title is: the session is as before, the only line printed is
  \<open>Open window\<close> (for a non-empty title), and the history of the slot becomes
  \<open>(end_time, new_title)\<close>.
\<close>

theorem first_observation_seeds_history:
  assumes "last_dict st app = Some slots" and "slots index = None"
  shows "process_slot save_logs monitor_start_time app index new_title end_time st =
           (Returned,
            st\<lparr>last_dict := (last_dict st)(app \<mapsto> slots(index \<mapsto> (end_time, new_title))),
               stdout := stdout st @
                 (if new_title \<noteq> [] then [Open_window end_time app new_title] else [])\<rparr>)"
  using assms by (simp add: process_slot_quiet)

theorem first_observation_seeds_history_witness:
  "process_slot True 0 ''feh.feh'' 1 ''B'' 9 (example_state example_session ''feh.feh'' 0 5 ''A'') =
     (Returned,
      \<lparr>last_dict = [''feh.feh'' \<mapsto> [0 \<mapsto> (5, ''A''), 1 \<mapsto> (9, ''B'')]],
       session = example_session,
       stdout = [Starting 0, Open_window 9 ''feh.feh'' ''B'']\<rparr>)"
  using first_observation_seeds_history
    [of "example_state example_session ''feh.feh'' 0 5 ''A''" "''feh.feh''"
        "[0 \<mapsto> (5, ''A'')]" 1 True 0 "''B''" 9]
  by (simp add: example_state_def)

text \<open>
  Claim C4.  A transition of a slot whose stored title is empty produces no log
  record (the session is as before and only the \<open>Open window\<close> line is printed), and
  the history of the slot becomes \<open>(end_time, new_title)\<close>.
\<close>

theorem empty_title_suppression:
  assumes "last_dict st app = Some slots" and "slots index = Some (t, [])"
    and "new_title \<noteq> []"
  shows "process_slot save_logs monitor_start_time app index new_title end_time st =
           (Returned,
            st\<lparr>last_dict := (last_dict st)(app \<mapsto> slots(index \<mapsto> (end_time, new_title))),
               stdout := stdout st @ [Open_window end_time app new_title]\<rparr>)"
  using assms process_slot_quiet [of st app slots index new_title] by auto

theorem empty_title_suppression_witness:
  "process_slot True 0 ''vlc.Vlc'' 0 ''movie.mkv'' 9 (example_state example_session ''vlc.Vlc'' 0 5 []) =
     (Returned,
      \<lparr>last_dict = [''vlc.Vlc'' \<mapsto> [0 \<mapsto> (9, ''movie.mkv'')]],
       session = example_session,
       stdout = [Starting 0, Open_window 9 ''vlc.Vlc'' ''movie.mkv'']\<rparr>)"
  using empty_title_suppression
    [of "example_state example_session ''vlc.Vlc'' 0 5 []" "''vlc.Vlc''"
        "[0 \<mapsto> (5, [])]" 0 5 "''movie.mkv''" True 0 9]
  by (simp add: example_state_def)

text \<open>
  Claim C5.  When a segment with title \<open>A\<close> is closed and the catalog (whose paths
  are unique) has a video whose path equals \<open>A\<close>, the record printed links to the id of
  that video; when no video has that path, the link is \<open>None\<close>.  In both cases the
  record is printed, and nothing is raised unless the commit of a persisting run fails.
\<close>

theorem correlation_exact_best_effort:
  assumes "last_dict st app = Some slots" and "slots index = Some (t1, A)"
    and "A \<noteq> []" and "B \<noteq> A"
    and "distinct (map path (videos (session st)))"
  shows "(\<forall>v\<in>set (videos (session st)). path v = A \<longrightarrow>
            stdout (snd (process_slot save_logs monitor_start_time app index B t2 st)) =
              stdout st @ (if B \<noteq> [] then [Open_window t2 app B] else []) @
                [Log_line \<lparr>window_id = None, start_dt = t1, end_dt = t2, app_name = app,
                           title = A, log_video_id = Some (video_id v)\<rparr>])
       \<and> ((\<forall>v\<in>set (videos (session st)). path v \<noteq> A) \<longrightarrow>
            stdout (snd (process_slot save_logs monitor_start_time app index B t2 st)) =
              stdout st @ (if B \<noteq> [] then [Open_window t2 app B] else []) @
                [Log_line \<lparr>window_id = None, start_dt = t1, end_dt = t2, app_name = app,
                           title = A, log_video_id = None\<rparr>])
       \<and> fst (process_slot save_logs monitor_start_time app index B t2 st) =
            (if save_logs \<and> faults (session st) (commits (session st))
             then Raised OperationalError else Returned)"
proof -
  have hit: "find (\<lambda>u. path u = A) (videos (session st)) = Some v"
    if "v \<in> set (videos (session st))" and "path v = A" for v
    using find_path_distinct [OF assms(5) that(1)] that(2) by simp
  have miss: "find (\<lambda>u. path u = A) (videos (session st)) = None"
    if "\<forall>v\<in>set (videos (session st)). path v \<noteq> A"
    using that by (simp add: find_path_None)
  show ?thesis
    using assms
    by (simp add: process_slot_change close_segment_distinct Let_def hit miss)
qed

theorem correlation_exact_best_effort_witness:
  "stdout (snd (process_slot True 0 ''vlc.Vlc'' 0 [] 9
                  (example_state example_session ''vlc.Vlc'' 0 5 ''movies/x.mkv''))) =
     [Starting 0,
      Log_line \<lparr>window_id = None, start_dt = 5, end_dt = 9, app_name = ''vlc.Vlc'',
                 title = ''movies/x.mkv'', log_video_id = Some 7\<rparr>]
   \<and> stdout (snd (process_slot True 0 ''vlc.Vlc'' 0 [] 9
                  (example_state example_session ''vlc.Vlc'' 0 5 ''movies/y.mkv''))) =
     [Starting 0,
      Log_line \<lparr>window_id = None, start_dt = 5, end_dt = 9, app_name = ''vlc.Vlc'',
                 title = ''movies/y.mkv'', log_video_id = None\<rparr>]
   \<and> fst (process_slot True 0 ''vlc.Vlc'' 0 [] 9
                  (example_state example_session ''vlc.Vlc'' 0 5 ''movies/y.mkv'')) = Returned"
  using correlation_exact_best_effort
    [of "example_state example_session ''vlc.Vlc'' 0 5 ''movies/x.mkv''" "''vlc.Vlc''"
        "[0 \<mapsto> (5, ''movies/x.mkv'')]" 0 5 "''movies/x.mkv''" "[]" True 0 9]
    correlation_exact_best_effort
    [of "example_state example_session ''vlc.Vlc'' 0 5 ''movies/y.mkv''" "''vlc.Vlc''"
        "[0 \<mapsto> (5, ''movies/y.mkv'')]" 0 5 "''movies/y.mkv''" "[]" True 0 9]
  by (simp add: example_state_def example_session_def)

section \<open>Claims about a run of polls\<close>

text \<open>
  Claim C2.  When a slot reports the title its history holds, the body of the loop
  does nothing for it: no record is printed or stored and the state is as before.
  And over any run of polls in each of which the slot, where the snapshot has it,
  reports that title, the entry \<open>(time, title)\<close> of the slot stays what it was,
  whatever the other slots do.
\<close>

theorem debounce:
  assumes "slot_history st app index = Some (t, T)"
  shows "process_slot save_logs monitor_start_time app index T end_time st = (Returned, st)
       \<and> (list_all (\<lambda>p. poll_repeats root p app index T) polls \<longrightarrow>
            slot_history (snd (monitor_loop save_logs root monitor_start_time polls st)) app index =
              Some (t, T))"
proof -
  from assms obtain slots where "last_dict st app = Some slots" and "slots index = Some (t, T)"
    by (auto simp: slot_history_Some)
  then have "process_slot save_logs monitor_start_time app index T end_time st = (Returned, st)"
    by (rule process_slot_same)
  with monitor_loop_keeps [OF assms] show ?thesis by simp
qed

theorem debounce_witness:
  "process_slot True 0 ''feh.feh'' 0 ''A'' 9 (example_state example_session ''feh.feh'' 0 5 ''A'') =
     (Returned, example_state example_session ''feh.feh'' 0 5 ''A'')
   \<and> slot_history
        (snd (monitor_loop True ''/v/'' 0
                [example_poll ''0x1 0 feh.feh host A'' 9, example_poll ''0x1 0 feh.feh host A'' 12]
                (example_state example_session ''feh.feh'' 0 5 ''A''))) ''feh.feh'' 0 =
       Some (5, ''A'')"
  using debounce
    [of "example_state example_session ''feh.feh'' 0 5 ''A''" "''feh.feh''" 0 5 "''A''" True 0 9
        "''/v/''"
        "[example_poll ''0x1 0 feh.feh host A'' 9, example_poll ''0x1 0 feh.feh host A'' 12]"]
  by (simp add: example_state_def example_poll_def slot_history_def poll_repeats_def repeats_def
        list_windows_feh_A)

text \<open>
  Claim C6, as the code has it.  A run with \<open>save_logs = False\<close> leaves the session
  as it was: it writes nothing.  In every run whose persisting twin does not fail in a
  store write, the two runs end the same way, print the same text and hold the same
  history.  When a store write fails, the persisting run stops there and has printed a
  prefix of what the dry run prints.
\<close>

theorem dry_run_isolation:
  "session (snd (window_monitor False root monitor_start_time polls s)) = s
   \<and> prefix (stdout (snd (window_monitor True root monitor_start_time polls s)))
            (stdout (snd (window_monitor False root monitor_start_time polls s)))
   \<and> (fst (window_monitor True root monitor_start_time polls s) \<noteq> Raised OperationalError \<longrightarrow>
        fst (window_monitor False root monitor_start_time polls s) =
          fst (window_monitor True root monitor_start_time polls s)
        \<and> stdout (snd (window_monitor False root monitor_start_time polls s)) =
            stdout (snd (window_monitor True root monitor_start_time polls s))
        \<and> last_dict (snd (window_monitor False root monitor_start_time polls s)) =
            last_dict (snd (window_monitor True root monitor_start_time polls s)))"
proof -
  let ?st = "\<lparr>last_dict = Map.empty, session = s, stdout = [Starting monitor_start_time]\<rparr>"
  have "stops_early (monitor_loop True root monitor_start_time polls ?st)
          (monitor_loop False root monitor_start_time polls ?st)"
    by (rule monitor_loop_sim [OF same_view_refl])
  moreover have "session (snd (monitor_loop False root monitor_start_time polls ?st)) = s"
    by (simp add: monitor_loop_frame)
  ultimately show ?thesis
    by (auto simp: window_monitor_def stops_early_def same_view_def)
qed

theorem dry_run_isolation_witness:
  "fst (window_monitor True ''/v/'' 0
          [example_poll ''0x1 0 feh.feh host A'' 5, example_poll ''0x1 0 feh.feh host B'' 9]
          example_session) = Returned
   \<and> stdout (snd (window_monitor False ''/v/'' 0
          [example_poll ''0x1 0 feh.feh host A'' 5, example_poll ''0x1 0 feh.feh host B'' 9]
          example_session)) =
     stdout (snd (window_monitor True ''/v/'' 0
          [example_poll ''0x1 0 feh.feh host A'' 5, example_poll ''0x1 0 feh.feh host B'' 9]
          example_session))
   \<and> session (snd (window_monitor False ''/v/'' 0
          [example_poll ''0x1 0 feh.feh host A'' 5, example_poll ''0x1 0 feh.feh host B'' 9]
          example_session)) = example_session
   \<and> window_logs (session (snd (window_monitor True ''/v/'' 0
          [example_poll ''0x1 0 feh.feh host A'' 5, example_poll ''0x1 0 feh.feh host B'' 9]
          example_session))) =
     [\<lparr>window_id = Some 1, start_dt = 5, end_dt = 9, app_name = ''feh.feh'',
       title = ''A'', log_video_id = None\<rparr>]"
proof -
  have r: "fst (window_monitor True ''/v/'' 0
          [example_poll ''0x1 0 feh.feh host A'' 5, example_poll ''0x1 0 feh.feh host B'' 9]
          example_session) = Returned"
    by (simp add: run_simps)
  have w: "window_logs (session (snd (window_monitor True ''/v/'' 0
          [example_poll ''0x1 0 feh.feh host A'' 5, example_poll ''0x1 0 feh.feh host B'' 9]
          example_session))) =
     [\<lparr>window_id = Some 1, start_dt = 5, end_dt = 9, app_name = ''feh.feh'',
       title = ''A'', log_video_id = None\<rparr>]"
    by (simp add: run_simps)
  show ?thesis
    using r w dry_run_isolation
      [of "''/v/''" 0
          "[example_poll ''0x1 0 feh.feh host A'' 5, example_poll ''0x1 0 feh.feh host B'' 9]"
          example_session]
    by simp
qed

text \<open>
  Claim C6 as it is written fails when a store write fails: the first commit of this
  database fails, the persisting run stops after the first record, and the dry run,
  which commits nothing, goes on and prints the second.
\<close>

theorem dry_run_prints_more_when_write_fails:
  "stdout (snd (window_monitor False ''/v/'' 0
          [example_poll ''0x1 0 feh.feh host A'' 5, example_poll ''0x1 0 feh.feh host B'' 9,
           example_poll ''0x1 0 feh.feh host C'' 12] failing_session)) =
     [Starting 0, Open_window 5 ''feh.feh'' ''A'', Open_window 9 ''feh.feh'' ''B'',
      Log_line \<lparr>window_id = None, start_dt = 5, end_dt = 9, app_name = ''feh.feh'',
                 title = ''A'', log_video_id = None\<rparr>,
      Open_window 12 ''feh.feh'' ''C'',
      Log_line \<lparr>window_id = None, start_dt = 9, end_dt = 12, app_name = ''feh.feh'',
                 title = ''B'', log_video_id = None\<rparr>]
   \<and> stdout (snd (window_monitor True ''/v/'' 0
          [example_poll ''0x1 0 feh.feh host A'' 5, example_poll ''0x1 0 feh.feh host B'' 9,
           example_poll ''0x1 0 feh.feh host C'' 12] failing_session)) =
     [Starting 0, Open_window 5 ''feh.feh'' ''A'', Open_window 9 ''feh.feh'' ''B'',
      Log_line \<lparr>window_id = None, start_dt = 5, end_dt = 9, app_name = ''feh.feh'',
                 title = ''A'', log_video_id = None\<rparr>]
   \<and> fst (window_monitor False ''/v/'' 0
          [example_poll ''0x1 0 feh.feh host A'' 5, example_poll ''0x1 0 feh.feh host B'' 9,
           example_poll ''0x1 0 feh.feh host C'' 12] failing_session) = Returned
   \<and> fst (window_monitor True ''/v/'' 0
          [example_poll ''0x1 0 feh.feh host A'' 5, example_poll ''0x1 0 feh.feh host B'' 9,
           example_poll ''0x1 0 feh.feh host C'' 12] failing_session) = Raised OperationalError"
  by (simp add: run_simps)

text \<open>
  Claim C8, as the code has it.  A failing store write is not swallowed: the commit
  raises \<open>OperationalError\<close> out of the loop body, after the record has been printed
  and the history updated.  No handler but the one for \<open>KeyboardInterrupt\<close> stands
  around the loops, so the exception leaves \<open>window_monitor\<close>: wherever in a run the
  failing write happens (after the polls \<open>before\<close>, in the poll \<open>p\<close>, after the
  applications \<open>wpre\<close> and the slots \<open>pre\<close> of the application), the run ends there
  with \<open>OperationalError\<close> and the state the loop body left, and the polls \<open>later\<close>
  are never made.  The same holds of every exception: once a run has raised, polls
  added after it change nothing.
\<close>

theorem persistence_failure_ends_run:
  assumes "last_dict st app = Some slots" and "slots index = Some (t1, A)"
    and "A \<noteq> []" and "B \<noteq> A"
    and "distinct (map path (videos (session st)))"
    and "faults (session st) (commits (session st))"
  shows "process_slot True monitor_start_time app index B t2 st =
           (Raised OperationalError,
            st\<lparr>last_dict := (last_dict st)(app \<mapsto> slots(index \<mapsto> (t2, B))),
               stdout := stdout st @ (if B \<noteq> [] then [Open_window t2 app B] else []) @
                 [Log_line \<lparr>window_id = None, start_dt = t1, end_dt = t2, app_name = app,
                    title = A,
                    log_video_id = map_option video_id
                      (find (\<lambda>v. path v = A) (videos (session st)))\<rparr>]\<rparr>)
       \<and> (window_monitor True root monitor_start_time before s = (Returned, st0)
            \<and> list_windows root (wmctrl_out p) (lsof_out p) =
                Inr (wpre @ (app, pre @ B # post) # wpost)
            \<and> apps_loop True monitor_start_time (clock p) wpre st0 = (Returned, st1)
            \<and> process_app True monitor_start_time (clock p app) app pre st1 = (Returned, st)
            \<and> index = length pre \<and> t2 = clock p app index
          \<longrightarrow> window_monitor True root monitor_start_time (before @ p # later) s =
                (Raised OperationalError,
                 st\<lparr>last_dict := (last_dict st)(app \<mapsto> slots(index \<mapsto> (t2, B))),
                    stdout := stdout st @ (if B \<noteq> [] then [Open_window t2 app B] else []) @
                      [Log_line \<lparr>window_id = None, start_dt = t1, end_dt = t2, app_name = app,
                         title = A,
                         log_video_id = map_option video_id
                           (find (\<lambda>v. path v = A) (videos (session st)))\<rparr>]\<rparr>))
       \<and> (fst (window_monitor save_logs root monitor_start_time polls s') = Raised e \<longrightarrow>
            window_monitor save_logs root monitor_start_time (polls @ added) s' =
              window_monitor save_logs root monitor_start_time polls s')"
proof (intro conjI impI)
  let ?failed = "st\<lparr>last_dict := (last_dict st)(app \<mapsto> slots(index \<mapsto> (t2, B))),
               stdout := stdout st @ (if B \<noteq> [] then [Open_window t2 app B] else []) @
                 [Log_line \<lparr>window_id = None, start_dt = t1, end_dt = t2, app_name = app,
                    title = A,
                    log_video_id = map_option video_id
                      (find (\<lambda>v. path v = A) (videos (session st)))\<rparr>]\<rparr>"
  show body: "process_slot True monitor_start_time app index B t2 st = (Raised OperationalError, ?failed)"
    using assms by (simp add: process_slot_change close_segment_distinct Let_def)
  {
    assume run: "window_monitor True root monitor_start_time before s = (Returned, st0)
            \<and> list_windows root (wmctrl_out p) (lsof_out p) =
                Inr (wpre @ (app, pre @ B # post) # wpost)
            \<and> apps_loop True monitor_start_time (clock p) wpre st0 = (Returned, st1)
            \<and> process_app True monitor_start_time (clock p app) app pre st1 = (Returned, st)
            \<and> index = length pre \<and> t2 = clock p app index"
    then have "process_slot True monitor_start_time app (length pre) B (clock p app (length pre)) st =
                 (Raised OperationalError, ?failed)"
      using body by simp
    with run show "window_monitor True root monitor_start_time (before @ p # later) s =
                (Raised OperationalError, ?failed)"
      unfolding window_monitor_def by (intro monitor_loop_raises) blast+
  }
  {
    assume "fst (window_monitor save_logs root monitor_start_time polls s') = Raised e"
    then show "window_monitor save_logs root monitor_start_time (polls @ added) s' =
              window_monitor save_logs root monitor_start_time polls s'"
      by (simp add: window_monitor_def monitor_loop_raised_append)
  }
qed

theorem persistence_failure_ends_run_witness:
  "process_slot True 0 ''feh.feh'' 0 ''B'' 9 (example_state failing_session ''feh.feh'' 0 5 ''A'') =
     (Raised OperationalError,
      \<lparr>last_dict = [''feh.feh'' \<mapsto> [0 \<mapsto> (9, ''B'')]], session = failing_session,
       stdout = [Starting 0, Open_window 9 ''feh.feh'' ''B'',
                 Log_line \<lparr>window_id = None, start_dt = 5, end_dt = 9, app_name = ''feh.feh'',
                            title = ''A'', log_video_id = None\<rparr>]\<rparr>)
   \<and> window_monitor True ''/v/'' 0
        ([example_poll ''0x1 0 feh.feh host A'' 5] @ example_poll ''0x1 0 feh.feh host B'' 9 #
         [example_poll ''0x1 0 feh.feh host C'' 12]) failing_session =
       process_slot True 0 ''feh.feh'' 0 ''B'' 9
         (snd (window_monitor True ''/v/'' 0 [example_poll ''0x1 0 feh.feh host A'' 5] failing_session))
   \<and> window_monitor True ''/v/'' 0
        ([example_poll ''0x1 0 feh.feh host A'' 5, example_poll ''0x1 0 feh.feh host B'' 9] @
         [example_poll ''0x1 0 feh.feh host C'' 12]) failing_session =
     window_monitor True ''/v/'' 0
        [example_poll ''0x1 0 feh.feh host A'' 5, example_poll ''0x1 0 feh.feh host B'' 9]
        failing_session"
proof -
  let ?pA = "example_poll ''0x1 0 feh.feh host A'' 5"
  let ?pB = "example_poll ''0x1 0 feh.feh host B'' 9"
  let ?pC = "example_poll ''0x1 0 feh.feh host C'' 12"
  let ?st = "snd (window_monitor True ''/v/'' 0 [?pA] failing_session)"
  have first: "window_monitor True ''/v/'' 0 [?pA] failing_session = (Returned, ?st)"
    by (simp add: run_simps)
  have snap: "list_windows ''/v/'' (wmctrl_out ?pB) (lsof_out ?pB) =
      Inr ([(''vlc.Vlc'', [''''])] @ (''feh.feh'', [] @ ''B'' # []) #
           [(''google-chrome'', ['''']), (''Chromium-browser.Chromium-browser'', [''''])])"
    by (simp add: example_poll_def list_windows_feh_B)
  have apps: "apps_loop True 0 (clock ?pB) [(''vlc.Vlc'', [''''])] ?st = (Returned, ?st)"
    by (simp add: run_simps)
  have app: "process_app True 0 (clock ?pB ''feh.feh'') ''feh.feh'' [] ?st = (Returned, ?st)"
    by (simp add: run_simps)
  have stored: "last_dict ?st ''feh.feh'' = Some [0 \<mapsto> (5, ''A'')]"
    by (simp add: run_simps)
  have vs: "distinct (map path (videos (session ?st)))"
    and fault: "faults (session ?st) (commits (session ?st))"
    by (simp_all add: run_simps)
  have t: "(9::int) = clock ?pB ''feh.feh'' 0"
    by (simp add: example_poll_def)
  have r: "fst (window_monitor True ''/v/'' 0 [?pA, ?pB] failing_session) = Raised OperationalError"
    by (simp add: run_simps)
  note whole = persistence_failure_ends_run
      [where st = ?st and app = "''feh.feh''" and slots = "[0 \<mapsto> (5, ''A'')]" and index = 0
         and ?t1.0 = 5 and A = "''A''" and B = "''B''" and ?t2.0 = 9 and root = "''/v/''"
         and monitor_start_time = 0 and before = "[?pA]" and s = failing_session
         and ?st0.0 = ?st and p = ?pB and wpre = "[(''vlc.Vlc'', [''''])]" and pre = "[]"
         and post = "[]"
         and wpost = "[(''google-chrome'', ['''']), (''Chromium-browser.Chromium-browser'', [''''])]"
         and ?st1.0 = ?st and later = "[?pC]", OF stored _ _ _ vs fault]
  have run: "window_monitor True ''/v/'' 0 ([?pA] @ ?pB # [?pC]) failing_session =
       process_slot True 0 ''feh.feh'' 0 ''B'' 9 ?st"
    using whole first snap apps app t by simp
  show ?thesis
    using r run persistence_failure_ends_run
      [where st = "example_state failing_session ''feh.feh'' 0 5 ''A''" and app = "''feh.feh''"
         and slots = "[0 \<mapsto> (5, ''A'')]" and index = 0 and ?t1.0 = 5 and A = "''A''"
         and B = "''B''" and save_logs = True and root = "''/v/''" and monitor_start_time = 0
         and polls = "[?pA, ?pB]" and s' = failing_session and e = OperationalError and ?t2.0 = 9
         and added = "[?pC]"]
    by (simp add: example_state_def failing_session_def example_session_def)
qed

text \<open>
  Claim C8 as it is written fails: the first commit of this database fails, at the
  second poll; the run ends there with the exception, and the third poll, which
  would have closed the segment of \<open>B\<close>, is never made.
\<close>

theorem persistence_failure_aborts_monitor:
  "fst (window_monitor True ''/v/'' 0
          [example_poll ''0x1 0 feh.feh host A'' 5, example_poll ''0x1 0 feh.feh host B'' 9,
           example_poll ''0x1 0 feh.feh host C'' 12] failing_session) = Raised OperationalError
   \<and> stdout (snd (window_monitor True ''/v/'' 0
          [example_poll ''0x1 0 feh.feh host A'' 5, example_poll ''0x1 0 feh.feh host B'' 9,
           example_poll ''0x1 0 feh.feh host C'' 12] failing_session)) =
     [Starting 0, Open_window 5 ''feh.feh'' ''A'', Open_window 9 ''feh.feh'' ''B'',
      Log_line \<lparr>window_id = None, start_dt = 5, end_dt = 9, app_name = ''feh.feh'',
                 title = ''A'', log_video_id = None\<rparr>]
   \<and> slot_history (snd (window_monitor True ''/v/'' 0
          [example_poll ''0x1 0 feh.feh host A'' 5, example_poll ''0x1 0 feh.feh host B'' 9,
           example_poll ''0x1 0 feh.feh host C'' 12] failing_session)) ''feh.feh'' 0 =
     Some (9, ''B'')"
  by (simp add: run_simps slot_history_def)

section \<open>Claims about the snapshot and the scan\<close>

text \<open>
  Claim C7.  \<open>list_windows\<close> returns whenever the video root is set and every
  non-blank line of the window list has at least three words.  What it returns has
  every application of \<open>APPS\<close> as a key, each key once, and no empty list of titles;
  an application of \<open>APPS\<close> to which no line belongs has the list \<open>['']\<close>.  In the
  monitor, an application whose slot 0 has no history and which is reported first with
  \<open>['']\<close> and then with one window titled \<open>T\<close> goes through two visits of the same
  slot 0: the first stores the empty title, the second stores \<open>T\<close> and prints the
  \<open>Open window\<close> line; no record is printed or stored.
\<close>

theorem slot_padding:
  "(root \<noteq> [] \<and> (\<forall>l\<in>set (split_lines lines). split_words l = [] \<or> 3 \<le> length (split_words l))
      \<longrightarrow> (\<exists>ws. list_windows root lines lsof = Inr ws))
   \<and> (list_windows root lines lsof = Inr ws \<longrightarrow>
        set APPS \<subseteq> set (map fst ws) \<and> distinct (map fst ws) \<and> (\<forall>(a, ts)\<in>set ws. ts \<noteq> [])
        \<and> (\<forall>a\<in>set APPS. (\<forall>l\<in>set (split_lines lines). line_app l \<noteq> Some a) \<longrightarrow>
              map_of ws a = Some ['''']))
   \<and> (slot_history st app 0 = None \<and> T \<noteq> [] \<longrightarrow>
        process_app save_logs monitor_start_time now1 app [''''] st =
          (Returned,
           st\<lparr>last_dict := (last_dict st)(app \<mapsto>
                (case last_dict st app of None \<Rightarrow> Map.empty | Some slots \<Rightarrow> slots)
                  (0 \<mapsto> (now1 0, [])))\<rparr>)
        \<and> process_app save_logs monitor_start_time now2 app [T]
            (snd (process_app save_logs monitor_start_time now1 app [''''] st)) =
          (Returned,
           st\<lparr>last_dict := (last_dict st)(app \<mapsto>
                (case last_dict st app of None \<Rightarrow> Map.empty | Some slots \<Rightarrow> slots)
                  (0 \<mapsto> (now2 0, T))),
              stdout := stdout st @ [Open_window (now2 0) app T]\<rparr>))"
proof (intro conjI impI)
  assume "root \<noteq> [] \<and>
    (\<forall>l\<in>set (split_lines lines). split_words l = [] \<or> 3 \<le> length (split_words l))"
  then show "\<exists>ws. list_windows root lines lsof = Inr ws"
    by (intro list_windows_returns) simp_all
next
  assume r: "list_windows root lines lsof = Inr ws"
  show "set APPS \<subseteq> set (map fst ws)" "distinct (map fst ws)" "\<forall>(a, ts)\<in>set ws. ts \<noteq> []"
    by (rule list_windows_result [OF r])+
  show "\<forall>a\<in>set APPS. (\<forall>l\<in>set (split_lines lines). line_app l \<noteq> Some a) \<longrightarrow>
          map_of ws a = Some ['''']"
  proof (intro ballI impI)
    fix a
    assume a: "a \<in> set APPS" and "\<forall>l\<in>set (split_lines lines). line_app l \<noteq> Some a"
    then have "snapshot_slots root lsof a 0 (split_lines lines) = []"
      by (rule_tac snapshot_slots_absent)
    moreover have "a \<in> set (map fst ws)"
      using list_windows_result(2) [OF r] a by blast
    ultimately show "map_of ws a = Some ['''']"
      using list_windows_result(4) [OF r, of a] by simp
  qed
next
  assume "slot_history st app 0 = None \<and> T \<noteq> []"
  then have h: "slot_history st app 0 = None" and t: "T \<noteq> []"
    by simp_all
  show "process_app save_logs monitor_start_time now1 app [''''] st =
          (Returned,
           st\<lparr>last_dict := (last_dict st)(app \<mapsto>
                (case last_dict st app of None \<Rightarrow> Map.empty | Some slots \<Rightarrow> slots)
                  (0 \<mapsto> (now1 0, [])))\<rparr>)"
    by (rule process_app_empty_then_title(1) [OF h t])
  show "process_app save_logs monitor_start_time now2 app [T]
            (snd (process_app save_logs monitor_start_time now1 app [''''] st)) =
          (Returned,
           st\<lparr>last_dict := (last_dict st)(app \<mapsto>
                (case last_dict st app of None \<Rightarrow> Map.empty | Some slots \<Rightarrow> slots)
                  (0 \<mapsto> (now2 0, T))),
              stdout := stdout st @ [Open_window (now2 0) app T]\<rparr>)"
    by (rule process_app_empty_then_title(2) [OF h t])
qed

theorem slot_padding_witness:
  "list_windows ''/v/'' [] (\<lambda>k. []) =
     Inr [(''vlc.Vlc'', ['''']), (''feh.feh'', ['''']), (''google-chrome'', ['''']),
          (''Chromium-browser.Chromium-browser'', [''''])]
   \<and> map_of [(''vlc.Vlc'', ['''']), (''feh.feh'', ['''']), (''google-chrome'', ['''']),
          (''Chromium-browser.Chromium-browser'', [''''])] ''feh.feh'' = Some ['''']
   \<and> process_app True 0 (\<lambda>i. 9) ''feh.feh'' [''Doc'']
        (snd (process_app True 0 (\<lambda>i. 5) ''feh.feh'' ['''']
                \<lparr>last_dict = Map.empty, session = example_session, stdout = [Starting 0]\<rparr>)) =
       (Returned,
        \<lparr>last_dict = [''feh.feh'' \<mapsto> [0 \<mapsto> (9, ''Doc'')]], session = example_session,
         stdout = [Starting 0, Open_window 9 ''feh.feh'' ''Doc'']\<rparr>)"
  using slot_padding
    [where root = "''/v/''" and lines = "[]" and lsof = "\<lambda>k. []"
       and ws = "[(''vlc.Vlc'', ['''']), (''feh.feh'', ['''']), (''google-chrome'', ['''']),
                  (''Chromium-browser.Chromium-browser'', [''''])]"
       and st = "\<lparr>last_dict = Map.empty, session = example_session, stdout = [Starting 0]\<rparr>"
       and app = "''feh.feh''" and T = "''Doc''" and save_logs = True
       and monitor_start_time = 0 and ?now1.0 = "\<lambda>i. 5" and ?now2.0 = "\<lambda>i. 9"]
  by (clarsimp simp add: list_windows_none slot_history_def)






end
